theory Spec2Isabelle
  imports Main "HOL-Library.Word"
begin

unbundle bit_operations_syntax

section \<open>Python values used by \<^verbatim>\<open>apps/core/services/pix.py\<close>\<close>

subsection \<open>Strings\<close>

text \<open>
  A Python \<^verbatim>\<open>str\<close> is a sequence of Unicode code points, and \<^verbatim>\<open>len\<close>, indexing and
  slicing count code points. A code point is a natural number here; Python's are below
  \<open>0x110000\<close>. The literals of the source are ASCII and are written \<open>py ''...''\<close>.
\<close>

type_synonym codepoint = nat
type_synonym str = "codepoint list"

definition py :: "string \<Rightarrow> str" where
  "py s = map of_char s"

text \<open>
  The exceptions that can leave \<^verbatim>\<open>generate_pix_code\<close>; the module raises none itself, all
  come from the standard library.
\<close>

datatype py_error =
    InvalidOperation    \<comment> \<open>\<^verbatim>\<open>decimal.InvalidOperation\<close>: ordering comparison with a NaN\<close>
  | ValueError          \<comment> \<open>formatting a Decimal beyond the limits of \<^verbatim>\<open>_decimal\<close>\<close>
  | MemoryError         \<comment> \<open>formatting a Decimal into more characters than fit in memory\<close>
  | UnicodeEncodeError  \<comment> \<open>\<^verbatim>\<open>str.encode("utf-8")\<close> on a lone surrogate\<close>

subsection \<open>The interpreter: the Unicode character database and the room for a number\<close>

text \<open>
  \<^verbatim>\<open>str.strip\<close>, \<^verbatim>\<open>str.split\<close>, \<^verbatim>\<open>str.lower\<close>, \<^verbatim>\<open>str.upper\<close>, the regular expression class
  \<^verbatim>\<open>\d\<close>, \<^verbatim>\<open>int\<close> and \<^verbatim>\<open>unicodedata\<close> read the interpreter's Unicode tables, which are not
  part of the repository. On ASCII their behaviour is fixed and written out below; beyond
  ASCII it is a parameter \<open>U\<close> of every function that depends on it, so a theorem that holds
  for every \<open>U\<close> holds for the tables of any interpreter. \<open>U\<close> also says how many characters
  a formatted Decimal may have before the interpreter runs out of memory
  (\<open>format_capacity\<close>).

  A code point is a decimal digit (category Nd, with its digit value), a nonspacing mark
  (category Mn), white space (what \<^verbatim>\<open>str.isspace\<close> accepts) or none of these; the three
  classes are disjoint in Unicode.
\<close>

datatype uclass = Nd nat | Mn | Whitespace | Other

record interpreter =
  ucd_class :: "codepoint \<Rightarrow> uclass"
  ucd_normalize_NFD :: "str \<Rightarrow> str"
  ucd_lower :: "str \<Rightarrow> str"
  ucd_upper :: "str \<Rightarrow> str"
  format_capacity :: nat

text \<open>
  ASCII: the digits \<^verbatim>\<open>0\<close> to \<^verbatim>\<open>9\<close>; the white space characters \<^verbatim>\<open>\t \n \v \f \r\<close>,
  \<^verbatim>\<open>\x1c\<close> to \<^verbatim>\<open>\x1f\<close> and the space; no nonspacing mark.
\<close>

definition ascii_class :: "codepoint \<Rightarrow> uclass" where
  "ascii_class c =
     (if 48 \<le> c \<and> c \<le> 57 then Nd (c - 48)
      else if (9 \<le> c \<and> c \<le> 13) \<or> (28 \<le> c \<and> c \<le> 32) then Whitespace
      else Other)"

definition char_class :: "interpreter \<Rightarrow> codepoint \<Rightarrow> uclass" where
  "char_class U c = (if c < 128 then ascii_class c else ucd_class U c)"

definition isspace :: "interpreter \<Rightarrow> codepoint \<Rightarrow> bool" where
  "isspace U c = (char_class U c = Whitespace)"

definition isdecimal :: "interpreter \<Rightarrow> codepoint \<Rightarrow> bool" where
  "isdecimal U c = (case char_class U c of Nd v \<Rightarrow> True | _ \<Rightarrow> False)"

definition decimal_value :: "interpreter \<Rightarrow> codepoint \<Rightarrow> nat" where
  "decimal_value U c = (case char_class U c of Nd v \<Rightarrow> v | _ \<Rightarrow> 0)"

definition category_is_Mn :: "interpreter \<Rightarrow> codepoint \<Rightarrow> bool" where
  "category_is_Mn U c = (char_class U c = Mn)"

definition is_ascii :: "str \<Rightarrow> bool" where
  "is_ascii s = list_all (\<lambda>c. c < 128) s"

definition ascii_lower :: "codepoint \<Rightarrow> codepoint" where
  "ascii_lower c = (if 65 \<le> c \<and> c \<le> 90 then c + 32 else c)"

definition ascii_upper :: "codepoint \<Rightarrow> codepoint" where
  "ascii_upper c = (if 97 \<le> c \<and> c \<le> 122 then c - 32 else c)"

text \<open>\<^verbatim>\<open>s.lower()\<close>, \<^verbatim>\<open>s.upper()\<close> and \<^verbatim>\<open>unicodedata.normalize("NFD", s)\<close>.\<close>

definition str_lower :: "interpreter \<Rightarrow> str \<Rightarrow> str" where
  "str_lower U s = (if is_ascii s then map ascii_lower s else ucd_lower U s)"

definition str_upper :: "interpreter \<Rightarrow> str \<Rightarrow> str" where
  "str_upper U s = (if is_ascii s then map ascii_upper s else ucd_upper U s)"

definition normalize_NFD :: "interpreter \<Rightarrow> str \<Rightarrow> str" where
  "normalize_NFD U s = (if is_ascii s then s else ucd_normalize_NFD U s)"

text \<open>
  An interpreter whose database knows nothing beyond ASCII, with room for a number of a
  thousand million characters. On an ASCII string no function of the module consults the
  database, so evaluating the model at ASCII inputs with \<open>ucd_ascii\<close> gives what Python
  gives.
\<close>

definition ucd_ascii :: interpreter where
  "ucd_ascii = \<lparr> ucd_class = (\<lambda>c. Other), ucd_normalize_NFD = (\<lambda>s. s),
                 ucd_lower = (\<lambda>s. s), ucd_upper = (\<lambda>s. s),
                 format_capacity = 1000000000 \<rparr>"

subsection \<open>String methods\<close>

text \<open>\<^verbatim>\<open>s.strip()\<close>: white space removed at both ends.\<close>

definition str_strip :: "interpreter \<Rightarrow> str \<Rightarrow> str" where
  "str_strip U s = rev (dropWhile (isspace U) (rev (dropWhile (isspace U) s)))"

text \<open>
  \<^verbatim>\<open>s.split()\<close>: the maximal runs of characters that are not white space. \<open>cur\<close> is the
  run being read.
\<close>

primrec split_from :: "interpreter \<Rightarrow> str \<Rightarrow> str \<Rightarrow> str list" where
  "split_from U cur [] = (if cur = [] then [] else [cur])"
| "split_from U cur (c # cs) =
     (if isspace U c
      then (if cur = [] then split_from U [] cs else cur # split_from U [] cs)
      else split_from U (cur @ [c]) cs)"

definition str_split :: "interpreter \<Rightarrow> str \<Rightarrow> str list" where
  "str_split U s = split_from U [] s"

text \<open>\<^verbatim>\<open>sep.join(ws)\<close>.\<close>

fun str_join :: "str \<Rightarrow> str list \<Rightarrow> str" where
  "str_join sep [] = []"
| "str_join sep [w] = w"
| "str_join sep (w # v # ws) = w @ sep @ str_join sep (v # ws)"

text \<open>\<^verbatim>\<open>s[:n]\<close> for an \<^verbatim>\<open>int\<close> \<open>n\<close>: a negative \<open>n\<close> counts from the end.\<close>

definition slice_to :: "str \<Rightarrow> int \<Rightarrow> str" where
  "slice_to s n = (if 0 \<le> n then take (nat n) s else take (length s - nat (- n)) s)"

text \<open>\<^verbatim>\<open>s[i:j]\<close> for constants \<open>0 \<le> i \<le> j\<close>, and \<^verbatim>\<open>s[i:]\<close>.\<close>

definition slice :: "str \<Rightarrow> nat \<Rightarrow> nat \<Rightarrow> str" where
  "slice s i j = take (j - i) (drop i s)"

definition slice_from :: "str \<Rightarrow> nat \<Rightarrow> str" where
  "slice_from s i = drop i s"

text \<open>\<^verbatim>\<open>s.startswith(p)\<close>.\<close>

definition startswith :: "str \<Rightarrow> str \<Rightarrow> bool" where
  "startswith s p = (take (length p) s = p)"

text \<open>\<^verbatim>\<open>str(n)\<close> for an \<^verbatim>\<open>int\<close> \<open>n \<ge> 0\<close>: the decimal digits, most significant first.\<close>

fun str_nat :: "nat \<Rightarrow> str" where
  "str_nat n = (if n < 10 then [48 + n] else str_nat (n div 10) @ [48 + n mod 10])"

declare str_nat.simps [simp del]

text \<open>
  \<^verbatim>\<open>s.zfill(w)\<close>: zeros on the left up to width \<open>w\<close>, after a leading sign if there is
  one; a string of width \<open>w\<close> or more is returned as it is.
\<close>

definition zfill :: "str \<Rightarrow> nat \<Rightarrow> str" where
  "zfill s w =
     (case s of
        c # cs \<Rightarrow>
          if c = 43 \<or> c = 45 then c # replicate (w - length s) 48 @ cs
          else replicate (w - length s) 48 @ s
      | [] \<Rightarrow> replicate w 48)"

text \<open>
  \<^verbatim>\<open>int(s)\<close> for a string of decimal digits (any \<^verbatim>\<open>\d\<close> characters, of any script). It is
  applied only to two characters that \<^verbatim>\<open>\d\<close> accepted, where it does not raise.
\<close>

definition int_str :: "interpreter \<Rightarrow> str \<Rightarrow> nat" where
  "int_str U s = foldl (\<lambda>acc c. 10 * acc + decimal_value U c) 0 s"

subsection \<open>Regular expressions\<close>

text \<open>
  The patterns of the module are anchored sequences of character classes with a fixed
  count (\<^verbatim>\<open>[...]{n}\<close>), one or more of a class (\<^verbatim>\<open>[...]+\<close>), literal characters and optional
  literal characters (\<^verbatim>\<open>c?\<close>). \<open>re_match items s\<close> is \<^verbatim>\<open>re.match(r"^items$", s)\<close> as a
  truth value. Without the MULTILINE flag \<^verbatim>\<open>$\<close> matches at the end of the string and also
  just before a newline that ends the string.
\<close>

datatype re_item =
    Class "codepoint \<Rightarrow> bool" nat
  | Plus "codepoint \<Rightarrow> bool"
  | Lit codepoint
  | Opt codepoint

fun re_match :: "re_item list \<Rightarrow> str \<Rightarrow> bool" where
  "re_match [] s = (s = [] \<or> s = [10])"
| "re_match (Class p n # r) s =
     (n \<le> length s \<and> list_all p (take n s) \<and> re_match r (drop n s))"
| "re_match (Plus p # r) s =
     list_ex (\<lambda>n. list_all p (take n s) \<and> re_match r (drop n s)) [1 ..< Suc (length s)]"
| "re_match (Lit c # r) s =
     (case s of [] \<Rightarrow> False | x # xs \<Rightarrow> x = c \<and> re_match r xs)"
| "re_match (Opt c # r) s =
     ((case s of [] \<Rightarrow> False | x # xs \<Rightarrow> x = c \<and> re_match r xs) \<or> re_match r s)"

text \<open>The classes \<^verbatim>\<open>[a-fA-F0-9]\<close>, \<^verbatim>\<open>[a-zA-Z0-9 ]\<close> and \<^verbatim>\<open>[a-zA-Z0-9]\<close>.\<close>

definition is_hex :: "codepoint \<Rightarrow> bool" where
  "is_hex c = ((97 \<le> c \<and> c \<le> 102) \<or> (65 \<le> c \<and> c \<le> 70) \<or> (48 \<le> c \<and> c \<le> 57))"

definition is_alnum :: "codepoint \<Rightarrow> bool" where
  "is_alnum c = ((97 \<le> c \<and> c \<le> 122) \<or> (65 \<le> c \<and> c \<le> 90) \<or> (48 \<le> c \<and> c \<le> 57))"

definition is_alnum_space :: "codepoint \<Rightarrow> bool" where
  "is_alnum_space c = (is_alnum c \<or> c = 32)"

subsection \<open>Decimal\<close>

text \<open>
  A \<^verbatim>\<open>decimal.Decimal\<close> is finite, with a sign (\<open>True\<close> for negative), a coefficient and an
  exponent, of value \<open>\<plusminus> coefficient * 10 ^ exponent\<close>, or an infinity with a sign, or a NaN
  (quiet or signalling).
\<close>

datatype Decimal = Finite bool nat int | Infinity bool | NaN

text \<open>
  \<^verbatim>\<open>amount > 0\<close>. An ordering comparison that involves a NaN signals InvalidOperation, which
  the default context traps: the comparison raises.
\<close>

definition decimal_gt_zero :: "Decimal \<Rightarrow> py_error + bool" where
  "decimal_gt_zero d =
     (case d of
        Finite sign coefficient exponent \<Rightarrow> Inr (\<not> sign \<and> 0 < coefficient)
      | Infinity sign \<Rightarrow> Inr (\<not> sign)
      | NaN \<Rightarrow> Inl InvalidOperation)"

text \<open>
  Rounding of a coefficient to the exponent \<open>-2\<close> under the default context's
  ROUND_HALF_EVEN: the coefficient of the Decimal in units of \<open>0.01\<close>.
\<close>

definition rescale_hundredths :: "nat \<Rightarrow> int \<Rightarrow> nat" where
  "rescale_hundredths coefficient exponent =
     (if - 2 \<le> exponent then coefficient * 10 ^ nat (exponent + 2)
      else
        let k = nat (- 2 - exponent);
            q = coefficient div 10 ^ k;
            r = coefficient mod 10 ^ k
        in if 2 * r > 10 ^ k \<or> (2 * r = 10 ^ k \<and> odd q) then q + 1 else q)"

text \<open>
  The characters of \<^verbatim>\<open>f"{amount:.2f}"\<close>: the sign if negative, the integer part, a point and
  two digits. A special value is formatted as its name.
\<close>

definition fixed_2f :: "Decimal \<Rightarrow> str" where
  "fixed_2f d =
     (case d of
        Finite sign coefficient exponent \<Rightarrow>
          (let h = rescale_hundredths coefficient exponent
           in (if sign then py ''-'' else []) @ str_nat (h div 100) @ py ''.''
              @ zfill (str_nat (h mod 100)) 2)
      | Infinity sign \<Rightarrow> (if sign then py ''-'' else []) @ py ''Infinity''
      | NaN \<Rightarrow> py ''NaN'')"

text \<open>
  \<^verbatim>\<open>f"{amount:.2f}"\<close> of the C implementation of \<^verbatim>\<open>decimal\<close> (64 bit). A finite Decimal that
  is not zero is first rescaled to the exponent \<open>-2\<close>. When the rescaled coefficient would
  have more than \<^verbatim>\<open>decimal.MAX_PREC + 1\<close> digits, ValueError is raised ("format specification
  exceeds internal limits of _decimal"); when the characters do not fit in memory,
  MemoryError. This is the one step of the module whose result is not bounded by the size
  of its arguments (\<^verbatim>\<open>Decimal("1E+1000000000")\<close> has a thousand million digits), and the one
  place where memory is part of the model.
\<close>

definition MAX_PREC :: int where
  "MAX_PREC = 999999999999999999"

definition format_2f :: "interpreter \<Rightarrow> Decimal \<Rightarrow> py_error + str" where
  "format_2f U d =
     (case d of
        Finite sign coefficient exponent \<Rightarrow>
          if coefficient \<noteq> 0
             \<and> MAX_PREC + 1 < int (length (str_nat coefficient)) + (exponent + 2)
          then Inl ValueError
          else if format_capacity U < length (fixed_2f d) then Inl MemoryError
          else Inr (fixed_2f d)
      | Infinity sign \<Rightarrow> Inr (fixed_2f d)
      | NaN \<Rightarrow> Inr (fixed_2f d))"

subsection \<open>Bytes\<close>

text \<open>
  \<^verbatim>\<open>s.encode("utf-8")\<close>, a list of bytes. A surrogate code point cannot be encoded:
  Python raises UnicodeEncodeError. Numbers from \<open>0x110000\<close> on are no code points of a
  Python string; they are rejected in the same way.
\<close>

definition utf8_char :: "codepoint \<Rightarrow> py_error + nat list" where
  "utf8_char c =
     (if c < 0x80 then Inr [c]
      else if c < 0x800 then Inr [0xC0 + c div 64, 0x80 + c mod 64]
      else if 0xD800 \<le> c \<and> c \<le> 0xDFFF then Inl UnicodeEncodeError
      else if c < 0x10000 then
        Inr [0xE0 + c div 4096, 0x80 + c div 64 mod 64, 0x80 + c mod 64]
      else if c < 0x110000 then
        Inr [0xF0 + c div 262144, 0x80 + c div 4096 mod 64, 0x80 + c div 64 mod 64,
             0x80 + c mod 64]
      else Inl UnicodeEncodeError)"

fun utf8_encode :: "str \<Rightarrow> py_error + nat list" where
  "utf8_encode [] = Inr []"
| "utf8_encode (c # cs) =
     (case utf8_char c of
        Inl e \<Rightarrow> Inl e
      | Inr bs \<Rightarrow>
          (case utf8_encode cs of Inl e \<Rightarrow> Inl e | Inr rest \<Rightarrow> Inr (bs @ rest)))"

text \<open>
  \<^verbatim>\<open>format(n, "04X")\<close> for \<open>n \<ge> 0\<close>: the hexadecimal digits in upper case, padded with
  zeros on the left to four characters.
\<close>

definition hex_digit_upper :: "nat \<Rightarrow> codepoint" where
  "hex_digit_upper d = (if d < 10 then 48 + d else 55 + d)"

fun hex_upper :: "nat \<Rightarrow> str" where
  "hex_upper n =
     (if n < 16 then [hex_digit_upper n]
      else hex_upper (n div 16) @ [hex_digit_upper (n mod 16)])"

declare hex_upper.simps [simp del]

definition format_04X :: "nat \<Rightarrow> str" where
  "format_04X n = replicate (4 - length (hex_upper n)) 48 @ hex_upper n"

section \<open>The PIX service\<close>

text \<open>
  \<^verbatim>\<open>PixPayload\<close> and the attributes of a \<^verbatim>\<open>PixService\<close>. The constructor stores the key as
  it is given and the name and city normalised.
\<close>

record PixPayload =
  pix_key :: str
  merchant_name :: str
  merchant_city :: str
  amount :: "Decimal option"
  description :: str
  transaction_id :: str

record PixService =
  self_pix_key :: str
  self_merchant_name :: str
  self_merchant_city :: str

text \<open>The EMV tag ids and the GUI of PIX.\<close>

definition PAYLOAD_FORMAT_INDICATOR :: str where "PAYLOAD_FORMAT_INDICATOR = py ''00''"
definition POINT_OF_INITIATION :: str where "POINT_OF_INITIATION = py ''01''"
definition MERCHANT_ACCOUNT_INFO :: str where "MERCHANT_ACCOUNT_INFO = py ''26''"
definition MERCHANT_CATEGORY_CODE :: str where "MERCHANT_CATEGORY_CODE = py ''52''"
definition TRANSACTION_CURRENCY :: str where "TRANSACTION_CURRENCY = py ''53''"
definition TRANSACTION_AMOUNT :: str where "TRANSACTION_AMOUNT = py ''54''"
definition COUNTRY_CODE :: str where "COUNTRY_CODE = py ''58''"
definition MERCHANT_NAME :: str where "MERCHANT_NAME = py ''59''"
definition MERCHANT_CITY :: str where "MERCHANT_CITY = py ''60''"
definition ADDITIONAL_DATA_FIELD :: str where "ADDITIONAL_DATA_FIELD = py ''62''"
definition CRC16 :: str where "CRC16 = py ''63''"
definition PIX_GUI :: str where "PIX_GUI = py ''br.gov.bcb.pix''"

lemmas tag_defs =
  PAYLOAD_FORMAT_INDICATOR_def POINT_OF_INITIATION_def MERCHANT_ACCOUNT_INFO_def
  MERCHANT_CATEGORY_CODE_def TRANSACTION_CURRENCY_def TRANSACTION_AMOUNT_def
  COUNTRY_CODE_def MERCHANT_NAME_def MERCHANT_CITY_def ADDITIONAL_DATA_FIELD_def
  CRC16_def PIX_GUI_def

subsection \<open>Normalisers\<close>

text \<open>
  \<^verbatim>\<open>_remove_accents\<close>: NFD, then every character of category Mn is dropped.
\<close>

definition remove_accents :: "interpreter \<Rightarrow> str \<Rightarrow> str" where
  "remove_accents U text =
     (let normalized = normalize_NFD U text;
          without_accents = filter (\<lambda>char. \<not> category_is_Mn U char) normalized
      in without_accents)"

text \<open>
  The patterns of \<^verbatim>\<open>_normalize_pix_key\<close>:
  \<^verbatim>\<open>^[a-fA-F0-9]{8}-[a-fA-F0-9]{4}-[a-fA-F0-9]{4}-[a-fA-F0-9]{4}-[a-fA-F0-9]{12}$\<close>,
  \<^verbatim>\<open>^[a-fA-F0-9]+$\<close>, \<^verbatim>\<open>^\d{3}\.\d{3}\.\d{3}-\d{2}$\<close> and
  \<^verbatim>\<open>^\d{2}\.?\d{3}\.?\d{3}/?\d{4}-?\d{2}$\<close>. In a \<^verbatim>\<open>str\<close> pattern \<^verbatim>\<open>\d\<close> is any Unicode
  decimal digit.
\<close>

definition uuid_pattern :: "re_item list" where
  "uuid_pattern =
     [Class is_hex 8, Lit 45, Class is_hex 4, Lit 45, Class is_hex 4, Lit 45,
      Class is_hex 4, Lit 45, Class is_hex 12]"

definition hex_pattern :: "re_item list" where
  "hex_pattern = [Plus is_hex]"

definition cpf_formatted_pattern :: "interpreter \<Rightarrow> re_item list" where
  "cpf_formatted_pattern U =
     [Class (isdecimal U) 3, Lit 46, Class (isdecimal U) 3, Lit 46, Class (isdecimal U) 3,
      Lit 45, Class (isdecimal U) 2]"

definition cnpj_pattern :: "interpreter \<Rightarrow> re_item list" where
  "cnpj_pattern U =
     [Class (isdecimal U) 2, Opt 46, Class (isdecimal U) 3, Opt 46, Class (isdecimal U) 3,
      Opt 47, Class (isdecimal U) 4, Opt 45, Class (isdecimal U) 2]"

text \<open>
  \<^verbatim>\<open>looks_like_br_phone\<close> of \<^verbatim>\<open>_normalize_pix_key\<close>: eleven digits with \<^verbatim>\<open>9\<close> at index 2,
  or ten digits, and an area code from 11 to 99 in the first two.
\<close>

definition looks_like_br_phone :: "interpreter \<Rightarrow> str \<Rightarrow> bool" where
  "looks_like_br_phone U digits_only =
     (if length digits_only = 11 \<and> digits_only ! 2 = 57 then
        (let ddd = int_str U (slice digits_only 0 2) in 11 \<le> ddd \<and> ddd \<le> 99)
      else if length digits_only = 10 then
        (let ddd = int_str U (slice digits_only 0 2) in 11 \<le> ddd \<and> ddd \<le> 99)
      else False)"

text \<open>
  \<^verbatim>\<open>_normalize_pix_key\<close>. The characters are \<^verbatim>\<open>@\<close> (64), \<^verbatim>\<open>(\<close> (40) and \<^verbatim>\<open>)\<close> (41).
\<close>

definition normalize_pix_key :: "interpreter \<Rightarrow> str \<Rightarrow> str" where
  "normalize_pix_key U key0 =
     (if key0 = [] then []
      else
        let key = str_strip U key0 in
        if 64 \<in> set key then str_lower U key
        else if re_match uuid_pattern key then str_lower U key
        else
          let hex_only = filter is_hex key in
          if length hex_only = 32 \<and> re_match hex_pattern key then
            str_lower U
              (slice hex_only 0 8 @ py ''-'' @ slice hex_only 8 12 @ py ''-''
               @ slice hex_only 12 16 @ py ''-'' @ slice hex_only 16 20 @ py ''-''
               @ slice_from hex_only 20)
          else
            let digits_only = filter (isdecimal U) key;
                has_plus = startswith key (py ''+'')
            in
            if re_match (cpf_formatted_pattern U) key \<and> length digits_only = 11 then
              digits_only
            else if re_match (cnpj_pattern U) key \<and> length digits_only = 14 then
              digits_only
            else
              let has_parentheses = list_ex (\<lambda>c. c = 40 \<or> c = 41) key;
                  is_phone =
                    (has_plus \<or> has_parentheses
                     \<or> (startswith digits_only (py ''55'') \<and> 12 \<le> length digits_only)
                     \<or> looks_like_br_phone U digits_only)
              in
              if is_phone \<and> digits_only \<noteq> [] then
                (if has_plus
                    \<or> (startswith digits_only (py ''55'') \<and> 12 \<le> length digits_only)
                 then py ''+'' @ digits_only
                 else if length digits_only = 11 then py ''+55'' @ digits_only
                 else if length digits_only = 10 then py ''+55'' @ digits_only
                 else py ''+55'' @ digits_only)
              else if length digits_only = 14 then digits_only
              else if length digits_only = 11 then digits_only
              else key)"

text \<open>\<^verbatim>\<open>_normalize_text\<close>.\<close>

definition normalize_text :: "interpreter \<Rightarrow> str \<Rightarrow> int \<Rightarrow> str" where
  "normalize_text U value0 max_length =
     (if value0 = [] then []
      else
        let val = remove_accents U value0;
            val = filter is_alnum_space val;
            val = str_join (py '' '') (str_split U val)
        in slice_to (str_upper U val) max_length)"

text \<open>\<^verbatim>\<open>_normalize_txid\<close>; every caller passes the maximal length 25.\<close>

definition normalize_txid :: "interpreter \<Rightarrow> str \<Rightarrow> int \<Rightarrow> str" where
  "normalize_txid U value0 max_length =
     (if value0 = [] then py ''***''
      else
        let val = remove_accents U value0;
            val = filter is_alnum val;
            result = slice_to (str_upper U val) max_length
        in if result \<noteq> [] then result else py ''***'')"

text \<open>\<^verbatim>\<open>PixService.__init__\<close>.\<close>

definition PixService_init :: "interpreter \<Rightarrow> str \<Rightarrow> str \<Rightarrow> str \<Rightarrow> PixService" where
  "PixService_init U key name city =
     \<lparr> self_pix_key = key,
       self_merchant_name = normalize_text U name 25,
       self_merchant_city = normalize_text U city 15 \<rparr>"

subsection \<open>Fields\<close>

text \<open>
  \<^verbatim>\<open>_format_emv_field\<close>:
  \<^verbatim>\<open>length = str(len(value)).zfill(2); return f"{tag}{length}{value}"\<close>.
\<close>

definition format_emv_field :: "str \<Rightarrow> str \<Rightarrow> str" where
  "format_emv_field tag val =
     (let length = zfill (str_nat (length val)) 2
      in tag @ length @ val)"

text \<open>\<^verbatim>\<open>_build_merchant_account_info\<close>: the content of tag 26, then the field.\<close>

definition merchant_account_content :: "interpreter \<Rightarrow> PixService \<Rightarrow> PixPayload \<Rightarrow> str" where
  "merchant_account_content U self payload =
     (let gui = format_emv_field (py ''00'') PIX_GUI;
          key = normalize_pix_key U
                  (if pix_key payload \<noteq> [] then pix_key payload else self_pix_key self);
          key = format_emv_field (py ''01'') key;
          content = gui @ key
      in
      if description payload \<noteq> [] then
        (let description = normalize_text U (description payload) 25
         in if description \<noteq> [] then content @ format_emv_field (py ''02'') description
            else content)
      else content)"

definition build_merchant_account_info :: "interpreter \<Rightarrow> PixService \<Rightarrow> PixPayload \<Rightarrow> str" where
  "build_merchant_account_info U self payload =
     format_emv_field MERCHANT_ACCOUNT_INFO (merchant_account_content U self payload)"

text \<open>\<^verbatim>\<open>_build_additional_data_field\<close>.\<close>

definition build_additional_data_field :: "interpreter \<Rightarrow> PixPayload \<Rightarrow> str" where
  "build_additional_data_field U payload =
     (let txid = normalize_txid U (transaction_id payload) 25;
          content = format_emv_field (py ''05'') txid
      in format_emv_field ADDITIONAL_DATA_FIELD content)"

subsection \<open>The checksum\<close>

text \<open>
  The body of the loops of \<^verbatim>\<open>_calculate_crc16\<close>, on Python's unbounded integers: one
  shift step, and the eight steps for one byte.
\<close>

definition crc16_shift :: "int \<Rightarrow> int" where
  "crc16_shift crc =
     (let crc = (if crc AND 0x8000 \<noteq> 0 then push_bit 1 crc XOR 0x1021 else push_bit 1 crc)
      in crc AND 0xFFFF)"

definition crc16_byte :: "nat \<Rightarrow> int \<Rightarrow> int" where
  "crc16_byte byte crc = (crc16_shift ^^ 8) (crc XOR push_bit 8 (int byte))"

definition crc16_bytes :: "nat list \<Rightarrow> int" where
  "crc16_bytes data = fold crc16_byte data 0xFFFF"

text \<open>
  \<^verbatim>\<open>_calculate_crc16\<close>: the checksum of the payload followed by \<^verbatim>\<open>6304\<close>. The register
  is never negative.
\<close>

definition calculate_crc16 :: "str \<Rightarrow> py_error + str" where
  "calculate_crc16 payload =
     (let payload_with_crc = payload @ CRC16 @ py ''04'' in
      (case utf8_encode payload_with_crc of
         Inl e \<Rightarrow> Inl e
       | Inr data \<Rightarrow> Inr (format_04X (nat (crc16_bytes data)))))"

subsection \<open>The payload\<close>

text \<open>
  \<^verbatim>\<open>generate_pix_code\<close>. The comparison \<^verbatim>\<open>amount > 0\<close> is evaluated after the fields 00 to
  53 are built and only for an amount that is not \<^verbatim>\<open>None\<close>; the amount is formatted only
  when the comparison is true.
\<close>

definition make_payload ::
    "PixService \<Rightarrow> Decimal option \<Rightarrow> str \<Rightarrow> str \<Rightarrow> str \<Rightarrow> PixPayload" where
  "make_payload self amt descr txid key =
     \<lparr> pix_key = (if key \<noteq> [] then key else self_pix_key self),
       merchant_name = self_merchant_name self,
       merchant_city = self_merchant_city self,
       amount = amt,
       description = descr,
       transaction_id = txid \<rparr>"

definition amount_is_positive :: "Decimal option \<Rightarrow> py_error + bool" where
  "amount_is_positive amt = (case amt of None \<Rightarrow> Inr False | Some a \<Rightarrow> decimal_gt_zero a)"

definition generate_pix_code ::
    "interpreter \<Rightarrow> PixService \<Rightarrow> Decimal option \<Rightarrow> str \<Rightarrow> str \<Rightarrow> str \<Rightarrow> py_error + str" where
  "generate_pix_code U self amt descr txid key =
     (let payload = make_payload self amt descr txid key;
          result = [];
          result = result @ format_emv_field PAYLOAD_FORMAT_INDICATOR (py ''01'');
          result = result @ build_merchant_account_info U self payload;
          result = result @ format_emv_field MERCHANT_CATEGORY_CODE (py ''0000'');
          result = result @ format_emv_field TRANSACTION_CURRENCY (py ''986'')
      in
      case amount_is_positive amt of
        Inl e \<Rightarrow> Inl e
      | Inr positive \<Rightarrow>
         (case (if positive then
                  (case format_2f U (the amt) of
                     Inl e \<Rightarrow> Inl e
                   | Inr amount_str \<Rightarrow>
                       Inr (result @ format_emv_field TRANSACTION_AMOUNT amount_str))
                else Inr result) of
            Inl e \<Rightarrow> Inl e
          | Inr result \<Rightarrow>
             (let result = result @ format_emv_field COUNTRY_CODE (py ''BR'');
                  name = (if merchant_name payload \<noteq> [] then merchant_name payload
                          else if self_merchant_name self \<noteq> [] then self_merchant_name self
                          else py ''PAGAMENTO'');
                  result = result @ format_emv_field MERCHANT_NAME name;
                  city = (if merchant_city payload \<noteq> [] then merchant_city payload
                          else if self_merchant_city self \<noteq> [] then self_merchant_city self
                          else py ''BRASIL'');
                  result = result @ format_emv_field MERCHANT_CITY city;
                  result = result @ build_additional_data_field U payload
              in
              (case calculate_crc16 result of
                 Inl e \<Rightarrow> Inl e
               | Inr crc \<Rightarrow> Inr (result @ CRC16 @ py ''04'' @ crc)))))"

section \<open>Facts about the string methods\<close>

lemma str_nat_digit: "n < 10 \<Longrightarrow> str_nat n = [48 + n]"
  by (simp add: str_nat.simps)

lemma str_nat_two_digits:
  assumes "10 \<le> n" and "n < 100"
  shows "str_nat n = [48 + n div 10, 48 + n mod 10]"
proof -
  have "n div 10 < 10" using assms by simp
  then have "str_nat (n div 10) = [48 + n div 10]" by (rule str_nat_digit)
  moreover have "\<not> n < 10" using assms by simp
  ultimately show ?thesis by (subst str_nat.simps) simp
qed

lemma length_str_nat_pos: "0 < length (str_nat n)"
  by (subst str_nat.simps) simp

lemma length_str_nat_ge:
  "10 ^ k \<le> n \<Longrightarrow> k < length (str_nat n)"
proof (induction k arbitrary: n)
  case 0
  show ?case using length_str_nat_pos [of n] by simp
next
  case (Suc k)
  then have "10 ^ k \<le> n div 10" by simp
  then have "k < length (str_nat (n div 10))" by (rule Suc.IH)
  moreover have "\<not> n < 10"
  proof
    assume "n < 10"
    moreover have "(10::nat) \<le> 10 ^ Suc k" by simp
    ultimately show False using Suc.prems by linarith
  qed
  ultimately show ?case by (subst str_nat.simps) simp
qed

lemma length_str_nat_le:
  "n < 10 ^ Suc k \<Longrightarrow> length (str_nat n) \<le> Suc k"
proof (induction k arbitrary: n)
  case 0
  then show ?case by (simp add: str_nat_digit)
next
  case (Suc k)
  show ?case
  proof (cases "n < 10")
    case True
    then show ?thesis by (simp add: str_nat_digit)
  next
    case False
    have "n div 10 < 10 ^ Suc k" using Suc.prems by simp
    then have "length (str_nat (n div 10)) \<le> Suc k" by (rule Suc.IH)
    with False show ?thesis by (subst str_nat.simps) simp
  qed
qed

lemma str_nat_no_sign: "hd (str_nat n) \<noteq> 43 \<and> hd (str_nat n) \<noteq> 45 \<and> str_nat n \<noteq> []"
proof (induction n rule: str_nat.induct)
  case (1 n)
  show ?case
  proof (cases "n < 10")
    case True
    then show ?thesis by (simp add: str_nat_digit)
  next
    case False
    with 1 have "hd (str_nat (n div 10)) \<noteq> 43 \<and> hd (str_nat (n div 10)) \<noteq> 45
        \<and> str_nat (n div 10) \<noteq> []"
      by simp
    with False show ?thesis by (subst (1 2 3) str_nat.simps) simp
  qed
qed

lemma zfill_str_nat:
  "zfill (str_nat n) w = replicate (w - length (str_nat n)) 48 @ str_nat n"
proof (cases "str_nat n")
  case Nil
  with str_nat_no_sign [of n] show ?thesis by simp
next
  case (Cons c cs)
  with str_nat_no_sign [of n] have "c \<noteq> 43" "c \<noteq> 45" by simp_all
  with Cons show ?thesis by (simp add: zfill_def)
qed

lemma format_emv_field_eq:
  "format_emv_field tag val =
     tag @ replicate (2 - length (str_nat (length val))) 48 @ str_nat (length val) @ val"
  by (simp add: format_emv_field_def zfill_str_nat)

lemma format_emv_field_short:
  assumes "length val \<le> 99"
  shows "format_emv_field tag val = tag @ [48 + length val div 10, 48 + length val mod 10] @ val"
proof (cases "length val < 10")
  case True
  then show ?thesis
    by (simp add: format_emv_field_eq str_nat_digit)
next
  case False
  then have "str_nat (length val) = [48 + length val div 10, 48 + length val mod 10]"
    using assms by (intro str_nat_two_digits) simp_all
  then show ?thesis by (simp add: format_emv_field_eq)
qed

lemma format_emv_field_long:
  assumes "100 \<le> length val"
  shows "format_emv_field tag val = tag @ str_nat (length val) @ val"
    and "3 \<le> length (str_nat (length val))"
proof -
  have "(10::nat) ^ 2 \<le> length val" using assms by simp
  then have "2 < length (str_nat (length val))" by (rule length_str_nat_ge)
  then show "3 \<le> length (str_nat (length val))" by simp
  then show "format_emv_field tag val = tag @ str_nat (length val) @ val"
    by (simp add: format_emv_field_eq)
qed

section \<open>Claims about the field builder\<close>

text \<open>
  C3, as the code has it. The builder has no failure mode: it is a total function into
  strings. For every tag and every value of length at most 99 it returns the tag, the
  length as two decimal digits (zero-padded) and the value.
\<close>

theorem C3_format_emv_field_two_digit_length:
  "length val \<le> 99 \<Longrightarrow>
   format_emv_field tag val = tag @ [48 + length val div 10, 48 + length val mod 10] @ val"
  by (rule format_emv_field_short)

theorem C3_format_emv_field_two_digit_length_witness:
  "length (py ''BR'') \<le> 99 \<and> format_emv_field (py ''58'') (py ''BR'') = py ''5802BR''"
  using C3_format_emv_field_two_digit_length [of "py ''BR''" "py ''58''"]
  by (simp add: py_def)

text \<open>
  C3 as the specification states it fails: a value of 100 characters is not rejected with
  a FieldTooLong error, a field is returned for it.
\<close>

theorem C3_field_too_long_counterexample:
  "format_emv_field (py ''01'') (replicate 100 97) = py ''01100'' @ replicate 100 97"
  by (simp add: format_emv_field_eq py_def str_nat.simps)

section \<open>The fields of a payload\<close>

text \<open>
  \<open>serialize\<close> applies the field builder to (tag, value) pairs and concatenates the results.
  \<open>fields_before_crc\<close> lists the pairs that \<^verbatim>\<open>generate_pix_code\<close> hands to the builder at
  the top level, in the order of the calls, before the checksum. \<open>format_amount\<close> is the
  formatting of the amount, which happens only for an amount that compared greater than
  zero and is the one step between the comparison and the checksum that can raise.
\<close>

definition format_amount :: "interpreter \<Rightarrow> Decimal option \<Rightarrow> bool \<Rightarrow> py_error + str" where
  "format_amount U amt positive = (if positive then format_2f U (the amt) else Inr [])"


definition serialize :: "(str \<times> str) list \<Rightarrow> str" where
  "serialize fs = concat (map (\<lambda>(tag, val). format_emv_field tag val) fs)"

definition fields_before_crc ::
    "interpreter \<Rightarrow> PixService \<Rightarrow> Decimal option \<Rightarrow> str \<Rightarrow> str \<Rightarrow> str \<Rightarrow> (str \<times> str) list" where
  "fields_before_crc U self amt descr txid key =
     [(py ''00'', py ''01''),
      (py ''26'', merchant_account_content U self (make_payload self amt descr txid key)),
      (py ''52'', py ''0000''),
      (py ''53'', py ''986'')]
     @ (if amount_is_positive amt = Inr True then [(py ''54'', fixed_2f (the amt))] else [])
     @ [(py ''58'', py ''BR''),
        (py ''59'', if self_merchant_name self \<noteq> [] then self_merchant_name self
                    else py ''PAGAMENTO''),
        (py ''60'', if self_merchant_city self \<noteq> [] then self_merchant_city self
                    else py ''BRASIL''),
        (py ''62'', format_emv_field (py ''05'') (normalize_txid U txid 25))]"

lemma serialize_simps [simp]:
  "serialize [] = []"
  "serialize ((tag, val) # fs) = format_emv_field tag val @ serialize fs"
  "serialize (fs @ gs) = serialize fs @ serialize gs"
  by (simp_all add: serialize_def)

lemma format_2f_Inr: "format_2f U d = Inr v \<Longrightarrow> v = fixed_2f d"
  by (cases d) (simp_all add: format_2f_def split: if_splits)

lemma generate_pix_code_eq:
  "generate_pix_code U self amt descr txid key =
     (case amount_is_positive amt of
        Inl e \<Rightarrow> Inl e
      | Inr positive \<Rightarrow>
          (case format_amount U amt positive of
             Inl e \<Rightarrow> Inl e
           | Inr amount_str \<Rightarrow>
               (case calculate_crc16 (serialize (fields_before_crc U self amt descr txid key)) of
                  Inl e \<Rightarrow> Inl e
                | Inr crc \<Rightarrow>
                    Inr (serialize (fields_before_crc U self amt descr txid key)
                         @ CRC16 @ py ''04'' @ crc))))"
proof (cases "amount_is_positive amt")
  case (Inl e)
  then show ?thesis by (simp add: generate_pix_code_def Let_def)
next
  case (Inr positive)
  have name: "merchant_name (make_payload self amt descr txid key) = self_merchant_name self"
    and city: "merchant_city (make_payload self amt descr txid key) = self_merchant_city self"
    and txid: "transaction_id (make_payload self amt descr txid key) = txid"
    by (simp_all add: make_payload_def)
  show ?thesis
  proof (cases "format_amount U amt positive")
    case (Inl e)
    then show ?thesis
      unfolding generate_pix_code_def Let_def Inr sum.case format_amount_def
      by (cases positive) simp_all
  next
    case fmt: (Inr amount_str)
    have v: "positive \<Longrightarrow> format_2f U (the amt) = Inr (fixed_2f (the amt))"
      using fmt format_2f_Inr [of U "the amt" amount_str] by (simp add: format_amount_def)
    show ?thesis
      unfolding generate_pix_code_def Let_def Inr fmt sum.case fields_before_crc_def
        build_merchant_account_info_def build_additional_data_field_def name city txid tag_defs
      by (cases positive) (simp_all add: v split: sum.split)
  qed
qed

section \<open>Facts about the checksum\<close>

text \<open>The characters \<^verbatim>\<open>0\<close> to \<^verbatim>\<open>9\<close> and \<^verbatim>\<open>A\<close> to \<^verbatim>\<open>F\<close>.\<close>

definition is_upper_hex :: "codepoint \<Rightarrow> bool" where
  "is_upper_hex c = ((48 \<le> c \<and> c \<le> 57) \<or> (65 \<le> c \<and> c \<le> 70))"

lemma crc16_shift_range: "0 \<le> crc16_shift crc \<and> crc16_shift crc < 65536"
proof -
  have "x AND 0xFFFF \<le> (0xFFFF :: int)" for x :: int
    by (rule AND_upper2) simp
  moreover have "0 \<le> x AND (0xFFFF :: int)" for x :: int
    by (simp add: and_nonnegative_int_iff)
  ultimately show ?thesis
    unfolding crc16_shift_def Let_def by (smt (verit))
qed

lemma crc16_byte_range: "0 \<le> crc16_byte byte crc \<and> crc16_byte byte crc < 65536"
proof -
  have "crc16_byte byte crc = crc16_shift ((crc16_shift ^^ 7) (crc XOR push_bit 8 (int byte)))"
    by (simp add: crc16_byte_def eval_nat_numeral)
  then show ?thesis by (simp only: crc16_shift_range)
qed

lemma crc16_bytes_range: "0 \<le> crc16_bytes data \<and> crc16_bytes data < 65536"
proof (induction data rule: rev_induct)
  case Nil
  show ?case by (simp add: crc16_bytes_def)
next
  case (snoc b bs)
  have "crc16_bytes (bs @ [b]) = crc16_byte b (crc16_bytes bs)"
    by (simp add: crc16_bytes_def)
  then show ?case by (simp only: crc16_byte_range)
qed

lemma hex_digit_upper_ok: "d < 16 \<Longrightarrow> is_upper_hex (hex_digit_upper d)"
  by (auto simp: is_upper_hex_def hex_digit_upper_def)

lemma hex_upper_digits: "list_all is_upper_hex (hex_upper n)"
proof (induction n rule: hex_upper.induct)
  case (1 n)
  show ?case
  proof (cases "n < 16")
    case True
    then show ?thesis by (subst hex_upper.simps) (simp add: hex_digit_upper_ok)
  next
    case False
    with 1 have "list_all is_upper_hex (hex_upper (n div 16))" by simp
    with False show ?thesis by (subst hex_upper.simps) (simp add: hex_digit_upper_ok)
  qed
qed

lemma length_hex_upper_le: "n < 16 ^ Suc k \<Longrightarrow> length (hex_upper n) \<le> Suc k"
proof (induction k arbitrary: n)
  case 0
  then show ?case by (subst hex_upper.simps) simp
next
  case (Suc k)
  show ?case
  proof (cases "n < 16")
    case True
    then show ?thesis by (subst hex_upper.simps) simp
  next
    case False
    have "n div 16 < 16 ^ Suc k" using Suc.prems by simp
    then have "length (hex_upper (n div 16)) \<le> Suc k" by (rule Suc.IH)
    with False show ?thesis by (subst hex_upper.simps) simp
  qed
qed

lemma format_04X_ok:
  assumes "n < 65536"
  shows "length (format_04X n) = 4" and "list_all is_upper_hex (format_04X n)"
proof -
  have "n < 16 ^ Suc 3" using assms by simp
  then have "length (hex_upper n) \<le> Suc 3" by (rule length_hex_upper_le)
  then show "length (format_04X n) = 4" by (simp add: format_04X_def)
  have "list_all is_upper_hex (replicate k 48)" for k
    by (simp add: list_all_iff is_upper_hex_def)
  then show "list_all is_upper_hex (format_04X n)"
    by (simp add: format_04X_def hex_upper_digits)
qed

lemma calculate_crc16_Inr:
  assumes "calculate_crc16 payload = Inr crc"
  shows "length crc = 4" and "list_all is_upper_hex crc"
    and "\<exists>data. utf8_encode (payload @ CRC16 @ py ''04'') = Inr data
           \<and> crc = format_04X (nat (crc16_bytes data))"
proof -
  from assms obtain data where data: "utf8_encode (payload @ CRC16 @ py ''04'') = Inr data"
    and crc: "crc = format_04X (nat (crc16_bytes data))"
    by (auto simp: calculate_crc16_def Let_def split: sum.splits)
  have "nat (crc16_bytes data) < 65536" using crc16_bytes_range [of data] by linarith
  then show "length crc = 4" and "list_all is_upper_hex crc"
    unfolding crc by (rule format_04X_ok)+
  from data crc show "\<exists>data. utf8_encode (payload @ CRC16 @ py ''04'') = Inr data
           \<and> crc = format_04X (nat (crc16_bytes data))" by blast
qed

lemma generate_pix_code_Inr:
  assumes "generate_pix_code U self amt descr txid key = Inr s"
  shows "\<exists>crc. calculate_crc16 (serialize (fields_before_crc U self amt descr txid key)) = Inr crc
           \<and> s = serialize (fields_before_crc U self amt descr txid key) @ CRC16 @ py ''04'' @ crc"
  using assms unfolding generate_pix_code_eq by (auto split: sum.splits)

text \<open>
  An example used by the witnesses below: the service of key \<^verbatim>\<open>test@example.com\<close>, name
  \<^verbatim>\<open>LOJA TESTE\<close> and city \<^verbatim>\<open>SAO PAULO\<close>, and a payment of \<^verbatim>\<open>Decimal("10.5")\<close>.
\<close>

definition example_service :: PixService where
  "example_service =
     PixService_init ucd_ascii (py ''test@example.com'') (py ''LOJA TESTE'') (py ''SAO PAULO'')"

definition example_code :: str where
  "example_code =
     py ''00020126380014br.gov.bcb.pix0116test@example.com520400005303986540510.505802BR5910LOJA TESTE6009SAO PAULO62070503***6304CC49''"

lemma crc16_byte_unfold:
  "crc16_byte b c = crc16_shift (crc16_shift (crc16_shift (crc16_shift
      (crc16_shift (crc16_shift (crc16_shift (crc16_shift (c XOR push_bit 8 (int b)))))))))"
  by (simp add: crc16_byte_def eval_nat_numeral)

text \<open>The loop is CRC-16/CCITT-FALSE: its value on \<^verbatim>\<open>123456789\<close> is the standard \<open>0x29B1\<close>.\<close>

lemma crc16_check_value: "crc16_bytes (py ''123456789'') = 0x29B1"
  by (simp add: py_def crc16_bytes_def crc16_byte_unfold crc16_shift_def Let_def)

lemmas class_eval = isspace_def isdecimal_def decimal_value_def category_is_Mn_def
  char_class_def ascii_class_def is_ascii_def is_hex_def is_alnum_def is_alnum_space_def

lemmas normalize_text_eval = normalize_text_def normalize_txid_def remove_accents_def
  normalize_NFD_def str_split_def str_upper_def ascii_upper_def slice_to_def Let_def class_eval

lemmas normalize_pix_key_eval = normalize_pix_key_def str_strip_def str_lower_def
  ascii_lower_def uuid_pattern_def hex_pattern_def cpf_formatted_pattern_def cnpj_pattern_def
  looks_like_br_phone_def int_str_def slice_def slice_from_def startswith_def Let_def class_eval

lemmas crc16_eval = calculate_crc16_def CRC16_def utf8_char_def crc16_bytes_def
  crc16_byte_unfold crc16_shift_def Let_def format_04X_def hex_upper.simps hex_digit_upper_def

lemma example_key: "normalize_pix_key ucd_ascii (py ''test@example.com'') = py ''test@example.com''"
  by (simp add: py_def normalize_pix_key_eval)

lemma example_name: "normalize_text ucd_ascii (py ''LOJA TESTE'') 25 = py ''LOJA TESTE''"
  and example_city: "normalize_text ucd_ascii (py ''SAO PAULO'') 15 = py ''SAO PAULO''"
  by (simp_all add: py_def normalize_text_eval)

lemma example_txid: "normalize_txid ucd_ascii [] 25 = py ''***''"
  by (simp add: normalize_txid_def)

lemma example_amount: "fixed_2f (Finite False 105 (- 1)) = py ''10.50''"
  by (simp add: fixed_2f_def rescale_hundredths_def py_def str_nat.simps zfill_def Let_def)

lemma example_format: "format_2f ucd_ascii (Finite False 105 (- 1)) = Inr (py ''10.50'')"
  unfolding format_2f_def Decimal.case example_amount
  by (simp add: MAX_PREC_def ucd_ascii_def py_def str_nat.simps)

lemma example_fields:
  "fields_before_crc ucd_ascii example_service (Some (Finite False 105 (- 1))) [] [] [] =
     [(py ''00'', py ''01''),
      (py ''26'', py ''0014br.gov.bcb.pix0116test@example.com''),
      (py ''52'', py ''0000''), (py ''53'', py ''986''), (py ''54'', py ''10.50''),
      (py ''58'', py ''BR''), (py ''59'', py ''LOJA TESTE''), (py ''60'', py ''SAO PAULO''),
      (py ''62'', py ''0503***'')]"
  by (simp add: fields_before_crc_def example_service_def PixService_init_def make_payload_def
      merchant_account_content_def example_key example_name example_city example_txid
      example_amount Let_def amount_is_positive_def decimal_gt_zero_def format_emv_field_eq
      PIX_GUI_def)
    (simp add: py_def str_nat.simps)

lemma example_body:
  "serialize (fields_before_crc ucd_ascii example_service (Some (Finite False 105 (- 1))) [] [] [])
     = py ''00020126380014br.gov.bcb.pix0116test@example.com520400005303986540510.505802BR5910LOJA TESTE6009SAO PAULO62070503***''"
  unfolding example_fields by (simp add: format_emv_field_eq py_def str_nat.simps)

lemma example_crc:
  "calculate_crc16 (py ''00020126380014br.gov.bcb.pix0116test@example.com520400005303986540510.505802BR5910LOJA TESTE6009SAO PAULO62070503***'')
     = Inr (py ''CC49'')"
  by (simp add: py_def crc16_eval)

lemma example_payload:
  "generate_pix_code ucd_ascii example_service (Some (Finite False 105 (- 1))) [] [] []
     = Inr example_code"
  unfolding generate_pix_code_eq example_body example_crc
  by (simp add: amount_is_positive_def decimal_gt_zero_def format_amount_def example_format
      example_code_def CRC16_def py_def)

subsection \<open>The checksum as the specification words it\<close>

text \<open>
  The contract of the specification, written from its words and not from the code, on a
  register of 16 bits: the register starts at \<open>0xFFFF\<close>; every byte is XORed into the high
  byte of the register and followed by eight steps; a step shifts the register left by
  one bit and, if the top bit was set, XORs it with the polynomial \<open>0x1021\<close>. The final
  register is written as four upper-case hexadecimal digits, the high one first.
\<close>

definition spec_crc_step :: "16 word \<Rightarrow> 16 word" where
  "spec_crc_step r = (if bit r 15 then push_bit 1 r XOR 0x1021 else push_bit 1 r)"

definition spec_crc_byte :: "16 word \<Rightarrow> nat \<Rightarrow> 16 word" where
  "spec_crc_byte r b = (spec_crc_step ^^ 8) (r XOR push_bit 8 (word_of_nat b))"

definition spec_crc16 :: "nat list \<Rightarrow> 16 word" where
  "spec_crc16 bytes = foldl spec_crc_byte 0xFFFF bytes"

definition spec_hex4 :: "16 word \<Rightarrow> str" where
  "spec_hex4 r =
     map (\<lambda>i. py ''0123456789ABCDEF'' ! unat (drop_bit i r AND 0xF)) [12, 8, 4, 0]"

text \<open>
  The loop of the code on Python's integers computes the register of the specification,
  and \<^verbatim>\<open>format(crc, "04X")\<close> writes it as the specification says.
\<close>

lemma top_bit_word: "bit (word_of_int x :: 16 word) 15 \<longleftrightarrow> x AND 0x8000 \<noteq> 0"
proof -
  have "(0x8000 :: int) = push_bit 15 1" by simp
  then have "x AND 0x8000 \<noteq> 0 \<longleftrightarrow> bit x 15"
    by (simp only: bit_iff_and_push_bit_not_eq_0)
  then show ?thesis by (simp add: bit_word_of_int_iff)
qed

lemma mask16_word: "(word_of_int (y AND 0xFFFF) :: 16 word) = word_of_int y"
proof -
  have "(0xFFFF :: int) = mask 16" by (simp add: mask_eq_exp_minus_1)
  then show ?thesis by (simp add: word_of_int_eq_iff take_bit_eq_mask)
qed

lemma xor_word: "(word_of_int (a XOR b) :: 16 word) = word_of_int a XOR word_of_int b"
  by (simp only: word_wi_log_defs)

lemma push_word: "(word_of_int (push_bit n a) :: 16 word) = push_bit n (word_of_int a)"
  by (simp only: push_bit_of_int)

lemma crc16_shift_word: "word_of_int (crc16_shift x) = spec_crc_step (word_of_int x)"
proof (cases "x AND 0x8000 \<noteq> 0")
  case True
  then have "crc16_shift x = (push_bit 1 x XOR 0x1021) AND 0xFFFF"
    by (simp add: crc16_shift_def)
  moreover have "spec_crc_step (word_of_int x) = push_bit 1 (word_of_int x) XOR 0x1021"
    using True by (simp add: spec_crc_step_def top_bit_word)
  moreover have "(word_of_int 0x1021 :: 16 word) = 0x1021" by simp
  ultimately show ?thesis by (simp only: mask16_word xor_word push_word)
next
  case False
  then have "crc16_shift x = push_bit 1 x AND 0xFFFF"
    by (simp add: crc16_shift_def)
  moreover have "spec_crc_step (word_of_int x) = push_bit 1 (word_of_int x)"
    using False by (simp add: spec_crc_step_def top_bit_word)
  ultimately show ?thesis by (simp only: mask16_word push_word)
qed

lemma crc16_funpow_word: "word_of_int ((crc16_shift ^^ n) x) = (spec_crc_step ^^ n) (word_of_int x)"
  by (induction n) (simp_all add: crc16_shift_word)

lemma crc16_byte_word:
  "word_of_int (crc16_byte b c) = spec_crc_byte (word_of_int c) b"
proof -
  have "(word_of_int (int b) :: 16 word) = word_of_nat b" by simp
  then show ?thesis
    unfolding crc16_byte_def spec_crc_byte_def crc16_funpow_word xor_word push_word by (simp only:)
qed

lemma crc16_fold_word:
  "word_of_int (fold crc16_byte data c) = foldl spec_crc_byte (word_of_int c) data"
  by (induction data arbitrary: c) (simp_all add: crc16_byte_word)

lemma crc16_bytes_word: "word_of_int (crc16_bytes data) = spec_crc16 data"
proof -
  have "(word_of_int 0xFFFF :: 16 word) = 0xFFFF" by simp
  then show ?thesis unfolding crc16_bytes_def spec_crc16_def crc16_fold_word by (simp only:)
qed


lemma hex_digit_upper_nth: "d < 16 \<Longrightarrow> py ''0123456789ABCDEF'' ! d = hex_digit_upper d"
proof -
  assume "d < 16"
  then have "d = 0 \<or> d = 1 \<or> d = 2 \<or> d = 3 \<or> d = 4 \<or> d = 5 \<or> d = 6 \<or> d = 7 \<or> d = 8
      \<or> d = 9 \<or> d = 10 \<or> d = 11 \<or> d = 12 \<or> d = 13 \<or> d = 14 \<or> d = 15" by presburger
  then show ?thesis by (elim disjE) (simp_all add: hex_digit_upper_def py_def)
qed

lemma format_04X_digits:
  assumes "n < 65536"
  shows "format_04X n = [hex_digit_upper (n div 4096), hex_digit_upper (n div 256 mod 16),
                         hex_digit_upper (n div 16 mod 16), hex_digit_upper (n mod 16)]"
proof -
  note h = hex_upper.simps [of n] hex_upper.simps [of "n div 16"]
    hex_upper.simps [of "n div 256"] hex_upper.simps [of "n div 4096"]
  have z: "hex_digit_upper 0 = 48" by (simp add: hex_digit_upper_def)
  have r: "replicate 3 x = [x, x, x]" "replicate 2 x = [x, x]" for x :: nat
    by (simp_all add: numeral_3_eq_3 numeral_2_eq_2)
  have d: "n div 16 div 16 = n div 256" "n div 256 div 16 = n div 4096"
    using div_mult2_eq [of n 16 16] div_mult2_eq [of n 256 16] by simp_all
  consider "n < 16" | "16 \<le> n" "n < 256" | "256 \<le> n" "n < 4096" | "4096 \<le> n"
    by linarith
  then show ?thesis
  proof cases
    case 1
    then have "n div 4096 = 0" "n div 256 = 0" "n div 16 = 0" by simp_all
    with 1 show ?thesis by (simp add: format_04X_def h z r)
  next
    case 2
    then have "n div 4096 = 0" "n div 256 = 0" "n div 16 < 16" "\<not> n < 16" by simp_all
    then show ?thesis by (simp add: format_04X_def h z r)
  next
    case 3
    then have "n div 4096 = 0" "n div 256 < 16" "\<not> n div 16 < 16" "\<not> n < 16"
      by simp_all
    then show ?thesis by (simp add: format_04X_def h z r d)
  next
    case 4
    with assms have "n div 4096 < 16" "\<not> n div 256 < 16" "\<not> n div 16 < 16" "\<not> n < 16"
      by simp_all
    then show ?thesis by (simp add: format_04X_def h z r d)
  qed
qed

lemma unat_nibble: "unat (drop_bit i (w :: 16 word) AND 0xF) = unat w div 2 ^ i mod 16"
proof -
  have "unat (drop_bit i w AND 0xF) = unat (drop_bit i w) AND unat (0xF :: 16 word)"
    by (rule unsigned_and_eq)
  moreover have "unat (0xF :: 16 word) = mask 4" by (simp add: mask_eq_exp_minus_1)
  moreover have "unat (drop_bit i w) = drop_bit i (unat w)" by (rule unat_drop_bit_eq)
  ultimately have "unat (drop_bit i w AND 0xF) = take_bit 4 (drop_bit i (unat w))"
    by (simp add: take_bit_eq_mask)
  then show ?thesis by (simp add: take_bit_eq_mod drop_bit_eq_div)
qed

lemma format_04X_spec: "format_04X (unat (w :: 16 word)) = spec_hex4 w"
proof -
  have n: "unat w < 65536" using unsigned_less [of w] by simp
  have d: "unat w div 4096 < 16" using n by simp
  show ?thesis
    unfolding format_04X_digits [OF n] spec_hex4_def
    using d by (simp add: unat_nibble hex_digit_upper_nth)
qed

lemma crc16_bytes_unat: "nat (crc16_bytes data) = unat (spec_crc16 data)"
proof -
  have r: "0 \<le> crc16_bytes data" "crc16_bytes data < 65536"
    using crc16_bytes_range [of data] by simp_all
  have "unat (word_of_int (crc16_bytes data) :: 16 word) = nat (take_bit 16 (crc16_bytes data))"
    by (simp add: unsigned_of_int)
  also have "take_bit 16 (crc16_bytes data) = crc16_bytes data"
    using r by (simp add: take_bit_int_eq_self)
  finally show ?thesis by (simp add: crc16_bytes_word)
qed

lemma spec_crc16_check_value: "spec_crc16 (py ''123456789'') = 0x29B1"
proof -
  have "(word_of_int 0x29B1 :: 16 word) = 0x29B1" by simp
  then show ?thesis
    using crc16_bytes_word [of "py ''123456789''"] by (simp only: crc16_check_value)
qed

lemma calculate_crc16_spec:
  assumes "calculate_crc16 payload = Inr crc"
  shows "\<exists>data. utf8_encode (payload @ CRC16 @ py ''04'') = Inr data
           \<and> crc = spec_hex4 (spec_crc16 data)"
  using calculate_crc16_Inr(3) [OF assms]
  by (simp add: crc16_bytes_unat format_04X_spec)

text \<open>
  C1. Whenever \<^verbatim>\<open>generate_pix_code\<close> returns a string \<open>s\<close>, for any service, amount,
  description, transaction id and key: \<open>s\<close> ends in four upper-case hexadecimal digits,
  the rest of \<open>s\<close> has a UTF-8 encoding, and the checksum of the specification
  (CRC16-CCITT-FALSE: register \<open>0xFFFF\<close>, polynomial \<open>0x1021\<close>, each byte XORed into the
  high byte and followed by eight shift steps on 16 bits) recomputed over those bytes and
  written as four hexadecimal digits is the last four characters of \<open>s\<close>. That checksum
  has the check value \<open>0x29B1\<close> of CRC16-CCITT-FALSE on \<^verbatim>\<open>123456789\<close>.
\<close>

theorem C1_crc_round_trip:
  assumes "generate_pix_code U self amt descr txid key = Inr s"
  shows "4 \<le> length s
    \<and> list_all is_upper_hex (drop (length s - 4) s)
    \<and> (\<exists>data. utf8_encode (take (length s - 4) s) = Inr data
          \<and> spec_hex4 (spec_crc16 data) = drop (length s - 4) s)
    \<and> spec_crc16 (py ''123456789'') = 0x29B1"
proof -
  from generate_pix_code_Inr [OF assms] obtain crc
    where crc: "calculate_crc16 (serialize (fields_before_crc U self amt descr txid key)) = Inr crc"
      and s: "s = serialize (fields_before_crc U self amt descr txid key) @ CRC16 @ py ''04'' @ crc"
    by blast
  let ?body = "serialize (fields_before_crc U self amt descr txid key) @ CRC16 @ py ''04''"
  have len: "length crc = 4" and hex: "list_all is_upper_hex crc"
    using calculate_crc16_Inr [OF crc] by simp_all
  from calculate_crc16_spec [OF crc] obtain data
    where data: "utf8_encode ?body = Inr data" and eq: "crc = spec_hex4 (spec_crc16 data)"
    by auto
  have s': "s = ?body @ crc" by (simp add: s)
  have "drop (length s - 4) s = crc" and "take (length s - 4) s = ?body"
    unfolding s' using len by simp_all
  with len hex data eq show ?thesis by (simp add: s' spec_crc16_check_value)
qed

theorem C1_crc_round_trip_witness:
  "generate_pix_code ucd_ascii example_service (Some (Finite False 105 (- 1))) [] [] []
     = Inr example_code
   \<and> (4 \<le> length example_code
    \<and> list_all is_upper_hex (drop (length example_code - 4) example_code)
    \<and> (\<exists>data. utf8_encode (take (length example_code - 4) example_code) = Inr data
          \<and> spec_hex4 (spec_crc16 data) = drop (length example_code - 4) example_code)
    \<and> spec_crc16 (py ''123456789'') = 0x29B1)"
  by (rule conjI [OF example_payload C1_crc_round_trip [OF example_payload]])

section \<open>Claims about the payload\<close>

lemma format_emv_field_crc:
  "length crc = 4 \<Longrightarrow> format_emv_field CRC16 crc = CRC16 @ py ''04'' @ crc"
  by (simp add: format_emv_field_short py_def)

lemma map_fst_fields_before_crc:
  "map fst (fields_before_crc U self amt descr txid key) =
     [PAYLOAD_FORMAT_INDICATOR, MERCHANT_ACCOUNT_INFO, MERCHANT_CATEGORY_CODE,
      TRANSACTION_CURRENCY]
     @ (if amount_is_positive amt = Inr True then [TRANSACTION_AMOUNT] else [])
     @ [COUNTRY_CODE, MERCHANT_NAME, MERCHANT_CITY, ADDITIONAL_DATA_FIELD]"
  by (simp add: fields_before_crc_def tag_defs)

lemma tags_distinct:
  "distinct [PAYLOAD_FORMAT_INDICATOR, POINT_OF_INITIATION, MERCHANT_ACCOUNT_INFO,
     MERCHANT_CATEGORY_CODE, TRANSACTION_CURRENCY, TRANSACTION_AMOUNT, COUNTRY_CODE,
     MERCHANT_NAME, MERCHANT_CITY, ADDITIONAL_DATA_FIELD, CRC16]"
  by (simp add: tag_defs py_def)

lemma constant_fields:
  "map_of (fields_before_crc U self amt descr txid key @ rest) PAYLOAD_FORMAT_INDICATOR
     = Some (py ''01'')"
  "map_of (fields_before_crc U self amt descr txid key @ rest) MERCHANT_CATEGORY_CODE
     = Some (py ''0000'')"
  "map_of (fields_before_crc U self amt descr txid key @ rest) TRANSACTION_CURRENCY
     = Some (py ''986'')"
  "map_of (fields_before_crc U self amt descr txid key @ rest) COUNTRY_CODE
     = Some (py ''BR'')"
  by (simp_all add: fields_before_crc_def tag_defs py_def)

lemma rescale_ten_and_a_half: "rescale_hundredths (105 * 10 ^ k) (- 1 - int k) = 1050"
proof (cases "k \<le> 1")
  case True
  then have "k = 0 \<or> k = 1" by auto
  then show ?thesis by (auto simp: rescale_hundredths_def)
next
  case False
  then obtain j where k: "k = Suc j" and j: "0 < j" by (cases k) auto
  have e: "\<not> - 2 \<le> - 1 - int k" using False by simp
  have n: "nat (- 2 - (- 1 - int k)) = j" using k by simp
  have "(105 * 10 ^ k :: nat) = 1050 * 10 ^ j" by (simp add: k)
  then show ?thesis
    unfolding rescale_hundredths_def Let_def n using e by simp
qed

lemma fixed_2f_ten_and_a_half:
  "fixed_2f (Finite False (105 * 10 ^ k) (- 1 - int k)) = py ''10.50''"
  unfolding fixed_2f_def Decimal.case rescale_ten_and_a_half Let_def
  by (simp add: py_def str_nat.simps zfill_def)

lemma amount_is_positive_iff:
  "amount_is_positive amt = Inr True \<longleftrightarrow> (\<exists>a. amt = Some a \<and> decimal_gt_zero a = Inr True)"
  by (cases amt) (simp_all add: amount_is_positive_def)

lemma amount_field_present:
  "TRANSACTION_AMOUNT \<in> set (map fst (fields_before_crc U self amt descr txid key))
     \<longleftrightarrow> amount_is_positive amt = Inr True"
  by (simp add: map_fst_fields_before_crc tag_defs py_def)

lemma amount_field_value:
  "amount_is_positive amt = Inr True \<Longrightarrow>
   map_of (fields_before_crc U self amt descr txid key) TRANSACTION_AMOUNT
     = Some (fixed_2f (the amt))"
  by (simp add: fields_before_crc_def tag_defs py_def)

lemma generate_pix_code_formats:
  assumes "generate_pix_code U self amt descr txid key = Inr s"
    and "amount_is_positive amt = Inr True"
  shows "format_2f U (the amt) = Inr (fixed_2f (the amt))"
proof -
  from assms obtain v where v: "format_2f U (the amt) = Inr v"
    unfolding generate_pix_code_eq by (auto simp: format_amount_def split: sum.splits)
  with format_2f_Inr [OF v] show ?thesis by simp
qed

lemma merchant_account_content_amount:
  "merchant_account_content U self (make_payload self amt descr txid key)
     = merchant_account_content U self (make_payload self None descr txid key)"
  by (simp add: merchant_account_content_def make_payload_def Let_def)

lemma fields_before_crc_nonpositive:
  "amount_is_positive amt = Inr False \<Longrightarrow>
   fields_before_crc U self amt descr txid key = fields_before_crc U self None descr txid key"
  using merchant_account_content_amount [of U self amt descr txid key]
  by (simp add: fields_before_crc_def amount_is_positive_def)

lemma generate_pix_code_nonpositive:
  assumes "decimal_gt_zero a = Inr False"
  shows "generate_pix_code U self (Some a) descr txid key
           = generate_pix_code U self None descr txid key"
proof -
  have "amount_is_positive (Some a) = Inr False"
    using assms by (simp add: amount_is_positive_def)
  then have eq: "fields_before_crc U self (Some a) descr txid key
           = fields_before_crc U self None descr txid key"
    by (rule fields_before_crc_nonpositive)
  show ?thesis
    unfolding generate_pix_code_eq eq using assms
    by (simp add: amount_is_positive_def format_amount_def)
qed

text \<open>
  C2. Whenever \<^verbatim>\<open>generate_pix_code\<close> returns a string, that string is the concatenation
  of the fields the builder returns for a list of (tag, value) pairs whose tags are, in
  this order, 00, 26, 52, 53, then 54 exactly when an amount is supplied and greater than
  zero, then 58, 59, 60, 62 and 63. The value of 00 is \<^verbatim>\<open>01\<close>, of 52 \<^verbatim>\<open>0000\<close>, of 53
  \<^verbatim>\<open>986\<close> and of 58 \<^verbatim>\<open>BR\<close>, and no pair has the tag 01 of the point of initiation.
\<close>

theorem C2_field_order:
  assumes "generate_pix_code U self amt descr txid key = Inr s"
  shows "\<exists>fs. s = serialize fs
    \<and> map fst fs =
        [PAYLOAD_FORMAT_INDICATOR, MERCHANT_ACCOUNT_INFO, MERCHANT_CATEGORY_CODE,
         TRANSACTION_CURRENCY]
        @ (if amount_is_positive amt = Inr True then [TRANSACTION_AMOUNT] else [])
        @ [COUNTRY_CODE, MERCHANT_NAME, MERCHANT_CITY, ADDITIONAL_DATA_FIELD, CRC16]
    \<and> map_of fs PAYLOAD_FORMAT_INDICATOR = Some (py ''01'')
    \<and> map_of fs MERCHANT_CATEGORY_CODE = Some (py ''0000'')
    \<and> map_of fs TRANSACTION_CURRENCY = Some (py ''986'')
    \<and> map_of fs COUNTRY_CODE = Some (py ''BR'')
    \<and> POINT_OF_INITIATION \<notin> set (map fst fs)"
proof -
  let ?F = "fields_before_crc U self amt descr txid key"
  from generate_pix_code_Inr [OF assms] obtain crc
    where crc: "calculate_crc16 (serialize ?F) = Inr crc"
      and s: "s = serialize ?F @ CRC16 @ py ''04'' @ crc"
    by blast
  have len: "length crc = 4" using calculate_crc16_Inr(1) [OF crc] .
  let ?fs = "?F @ [(CRC16, crc)]"
  have "s = serialize ?fs"
    by (simp add: s format_emv_field_crc [OF len])
  moreover have tags: "map fst ?fs =
        [PAYLOAD_FORMAT_INDICATOR, MERCHANT_ACCOUNT_INFO, MERCHANT_CATEGORY_CODE,
         TRANSACTION_CURRENCY]
        @ (if amount_is_positive amt = Inr True then [TRANSACTION_AMOUNT] else [])
        @ [COUNTRY_CODE, MERCHANT_NAME, MERCHANT_CITY, ADDITIONAL_DATA_FIELD, CRC16]"
    by (simp add: map_fst_fields_before_crc)
  moreover have "POINT_OF_INITIATION \<notin> set (map fst ?fs)"
    unfolding tags using tags_distinct by auto
  ultimately show ?thesis
    using constant_fields [of U self amt descr txid key "[(CRC16, crc)]"] by blast
qed

theorem C2_field_order_witness:
  "generate_pix_code ucd_ascii example_service (Some (Finite False 105 (- 1))) [] [] []
     = Inr example_code
   \<and> (\<exists>fs. example_code = serialize fs
    \<and> map fst fs =
        [PAYLOAD_FORMAT_INDICATOR, MERCHANT_ACCOUNT_INFO, MERCHANT_CATEGORY_CODE,
         TRANSACTION_CURRENCY, TRANSACTION_AMOUNT, COUNTRY_CODE, MERCHANT_NAME, MERCHANT_CITY,
         ADDITIONAL_DATA_FIELD, CRC16]
    \<and> map_of fs PAYLOAD_FORMAT_INDICATOR = Some (py ''01'')
    \<and> map_of fs MERCHANT_CATEGORY_CODE = Some (py ''0000'')
    \<and> map_of fs TRANSACTION_CURRENCY = Some (py ''986'')
    \<and> map_of fs COUNTRY_CODE = Some (py ''BR'')
    \<and> POINT_OF_INITIATION \<notin> set (map fst fs))"
  using C2_field_order [OF example_payload] example_payload
  by (simp add: amount_is_positive_def decimal_gt_zero_def)

text \<open>
  C6. Whenever \<^verbatim>\<open>generate_pix_code\<close> returns a string, it is the serialized list
  \<open>fields_before_crc\<close> followed by the checksum field, and that list has a pair of tag 54
  if and only if an amount is supplied and is greater than zero; its value is then what
  \<^verbatim>\<open>f"{amount:.2f}"\<close> returns, the amount with two decimal places, and for an amount equal
  to 10.5 (with any number of trailing zeros in its coefficient) it is exactly \<^verbatim>\<open>10.50\<close>.
\<close>

theorem C6_amount_field:
  assumes "generate_pix_code U self amt descr txid key = Inr s"
  shows "(\<exists>crc. s = serialize (fields_before_crc U self amt descr txid key)
                   @ CRC16 @ py ''04'' @ crc)
    \<and> (TRANSACTION_AMOUNT \<in> set (map fst (fields_before_crc U self amt descr txid key))
         \<longleftrightarrow> (\<exists>a. amt = Some a \<and> decimal_gt_zero a = Inr True))
    \<and> (\<forall>a. amt = Some a \<and> decimal_gt_zero a = Inr True \<longrightarrow>
          format_2f U a = Inr (fixed_2f a)
          \<and> map_of (fields_before_crc U self amt descr txid key) TRANSACTION_AMOUNT
              = Some (fixed_2f a))
    \<and> (\<forall>k. amt = Some (Finite False (105 * 10 ^ k) (- 1 - int k)) \<longrightarrow>
          map_of (fields_before_crc U self amt descr txid key) TRANSACTION_AMOUNT
            = Some (py ''10.50''))"
proof (intro conjI allI impI)
  show "\<exists>crc. s = serialize (fields_before_crc U self amt descr txid key)
                   @ CRC16 @ py ''04'' @ crc"
    using generate_pix_code_Inr [OF assms] by blast
  show "TRANSACTION_AMOUNT \<in> set (map fst (fields_before_crc U self amt descr txid key))
         \<longleftrightarrow> (\<exists>a. amt = Some a \<and> decimal_gt_zero a = Inr True)"
    by (simp only: amount_field_present amount_is_positive_iff)
next
  fix a assume a: "amt = Some a \<and> decimal_gt_zero a = Inr True"
  then have pos: "amount_is_positive amt = Inr True" by (simp add: amount_is_positive_def)
  from generate_pix_code_formats [OF assms pos] a
  show "format_2f U a = Inr (fixed_2f a)" by simp
  from amount_field_value [OF pos] a
  show "map_of (fields_before_crc U self amt descr txid key) TRANSACTION_AMOUNT
            = Some (fixed_2f a)" by simp
next
  fix k assume a: "amt = Some (Finite False (105 * 10 ^ k) (- 1 - int k))"
  then have "amount_is_positive amt = Inr True"
    by (simp add: amount_is_positive_def decimal_gt_zero_def)
  from amount_field_value [OF this] a
  show "map_of (fields_before_crc U self amt descr txid key) TRANSACTION_AMOUNT
            = Some (py ''10.50'')"
    by (simp add: fixed_2f_ten_and_a_half)
qed

theorem C6_amount_field_witness:
  "generate_pix_code ucd_ascii example_service (Some (Finite False 105 (- 1))) [] [] []
     = Inr example_code
   \<and> TRANSACTION_AMOUNT \<in> set (map fst
        (fields_before_crc ucd_ascii example_service (Some (Finite False 105 (- 1))) [] [] []))
   \<and> map_of (fields_before_crc ucd_ascii example_service (Some (Finite False 105 (- 1))) [] [] [])
        TRANSACTION_AMOUNT = Some (py ''10.50'')"
proof -
  note c6 = C6_amount_field [OF example_payload]
  have pos: "decimal_gt_zero (Finite False 105 (- 1)) = Inr True"
    by (simp add: decimal_gt_zero_def)
  have "TRANSACTION_AMOUNT \<in> set (map fst
        (fields_before_crc ucd_ascii example_service (Some (Finite False 105 (- 1))) [] [] []))"
    using c6 pos by blast
  moreover have "map_of
        (fields_before_crc ucd_ascii example_service (Some (Finite False 105 (- 1))) [] [] [])
        TRANSACTION_AMOUNT = Some (py ''10.50'')"
    using c6 [THEN conjunct2, THEN conjunct2, THEN conjunct2, rule_format, of 0] by simp
  ultimately show ?thesis using example_payload by blast
qed

section \<open>Which inputs are encoded\<close>

text \<open>
  A string has a UTF-8 encoding when none of its code points is a surrogate. The
  normalised text fields consist of upper-case letters, digits and spaces.
\<close>

definition encodable :: "str \<Rightarrow> bool" where
  "encodable s = list_all (\<lambda>c. c < 0xD800 \<or> (0xDFFF < c \<and> c < 0x110000)) s"

definition is_upper_alnum_space :: "codepoint \<Rightarrow> bool" where
  "is_upper_alnum_space c = (c = 32 \<or> (48 \<le> c \<and> c \<le> 57) \<or> (65 \<le> c \<and> c \<le> 90))"

lemma encodable_simps [simp]:
  "encodable []"
  "encodable (a @ b) \<longleftrightarrow> encodable a \<and> encodable b"
  by (simp_all add: encodable_def)

lemma is_ascii_simps [simp]:
  "is_ascii []"
  "is_ascii (c # s) \<longleftrightarrow> c < 128 \<and> is_ascii s"
  "is_ascii (a @ b) \<longleftrightarrow> is_ascii a \<and> is_ascii b"
  by (simp_all add: is_ascii_def)

lemma is_ascii_set: "is_ascii s \<longleftrightarrow> (\<forall>c\<in>set s. c < 128)"
  by (simp add: is_ascii_def list_all_iff)

lemma is_ascii_zeros [simp]: "is_ascii (replicate n 48)"
  by (simp add: is_ascii_set)

lemma is_ascii_encodable: "is_ascii s \<Longrightarrow> encodable s"
  by (auto simp: is_ascii_set encodable_def list_all_iff)

lemma utf8_char_Inr:
  "c < 0xD800 \<or> (0xDFFF < c \<and> c < 0x110000) \<Longrightarrow> \<exists>bs. utf8_char c = Inr bs"
  by (auto simp: utf8_char_def)

lemma utf8_encode_encodable: "encodable s \<Longrightarrow> \<exists>bs. utf8_encode s = Inr bs"
proof (induction s)
  case Nil
  show ?case by simp
next
  case (Cons c s)
  then have "c < 0xD800 \<or> (0xDFFF < c \<and> c < 0x110000)" and "encodable s"
    by (simp_all add: encodable_def)
  with Cons.IH utf8_char_Inr [of c] obtain bs rest
    where "utf8_char c = Inr bs" and "utf8_encode s = Inr rest" by blast
  then show ?case by simp
qed

lemma is_ascii_str_nat: "is_ascii (str_nat n)"
proof (induction n rule: str_nat.induct)
  case (1 n)
  show ?case
  proof (cases "n < 10")
    case True
    then show ?thesis by (simp add: str_nat_digit)
  next
    case False
    with 1 have "is_ascii (str_nat (n div 10))" by simp
    moreover have "48 + n mod 10 < 128" by simp
    ultimately show ?thesis using False by (subst str_nat.simps) simp
  qed
qed

lemma is_ascii_format_emv_field:
  "is_ascii tag \<Longrightarrow> is_ascii val \<Longrightarrow> is_ascii (format_emv_field tag val)"
  by (simp add: format_emv_field_eq is_ascii_str_nat)

lemma encodable_format_emv_field:
  "is_ascii tag \<Longrightarrow> encodable val \<Longrightarrow> encodable (format_emv_field tag val)"
  by (simp add: format_emv_field_eq is_ascii_str_nat is_ascii_encodable)

lemma is_ascii_fixed_2f: "is_ascii (fixed_2f d)"
  by (cases d) (simp_all add: fixed_2f_def Let_def is_ascii_str_nat zfill_str_nat py_def)

lemma set_split_from:
  "w \<in> set (split_from U cur s) \<Longrightarrow> set w \<subseteq> set cur \<union> set s"
proof (induction s arbitrary: cur)
  case Nil
  then show ?case by (simp split: if_splits)
next
  case (Cons c s)
  show ?case
  proof (cases "isspace U c")
    case True
    with Cons.prems have "w = cur \<or> w \<in> set (split_from U [] s)"
      by (simp split: if_splits)
    then show ?thesis
    proof
      assume "w = cur"
      then show ?thesis by auto
    next
      assume "w \<in> set (split_from U [] s)"
      then have "set w \<subseteq> set [] \<union> set s" by (rule Cons.IH)
      then show ?thesis by auto
    qed
  next
    case False
    with Cons.prems have "w \<in> set (split_from U (cur @ [c]) s)" by simp
    then have "set w \<subseteq> set (cur @ [c]) \<union> set s" by (rule Cons.IH)
    then show ?thesis by auto
  qed
qed

lemma set_str_join: "set (str_join sep ws) \<subseteq> set sep \<union> \<Union> (set ` set ws)"
  by (induction sep ws rule: str_join.induct) auto

lemma set_slice_to: "set (slice_to s n) \<subseteq> set s"
  by (auto simp: slice_to_def dest: in_set_takeD)

lemma is_alnum_space_ascii: "is_alnum_space c \<Longrightarrow> c < 128"
  by (auto simp: is_alnum_space_def is_alnum_def)

lemma ascii_upper_alnum_space: "is_alnum_space c \<Longrightarrow> is_upper_alnum_space (ascii_upper c)"
  by (auto simp: is_alnum_space_def is_alnum_def is_upper_alnum_space_def ascii_upper_def)

lemma str_upper_alnum_space:
  assumes "\<forall>c\<in>set s. is_alnum_space c"
  shows "str_upper U s = map ascii_upper s" and "\<forall>c\<in>set (str_upper U s). is_upper_alnum_space c"
proof -
  have "is_ascii s" using assms by (auto simp: is_ascii_set is_alnum_space_ascii)
  then show "str_upper U s = map ascii_upper s" by (simp add: str_upper_def)
  then show "\<forall>c\<in>set (str_upper U s). is_upper_alnum_space c"
    using assms by (auto simp: ascii_upper_alnum_space)
qed

lemma collapsed_alnum_space:
  assumes "\<forall>c\<in>set s. is_alnum_space c"
  shows "\<forall>c\<in>set (str_join (py '' '') (str_split U s)). is_alnum_space c"
proof
  fix c assume "c \<in> set (str_join (py '' '') (str_split U s))"
  with set_str_join [of "py '' ''" "str_split U s"]
  have "c \<in> set (py '' '') \<or> (\<exists>w\<in>set (str_split U s). c \<in> set w)" by auto
  then show "is_alnum_space c"
  proof
    assume "c \<in> set (py '' '')"
    then show ?thesis by (simp add: py_def is_alnum_space_def)
  next
    assume "\<exists>w\<in>set (str_split U s). c \<in> set w"
    then obtain w where "w \<in> set (split_from U [] s)" and "c \<in> set w"
      by (auto simp: str_split_def)
    with set_split_from [of w U "[]" s] have "c \<in> set s" by auto
    with assms show ?thesis by simp
  qed
qed

lemma normalize_text_chars: "\<forall>c\<in>set (normalize_text U v n). is_upper_alnum_space c"
proof (cases "v = []")
  case True
  then show ?thesis by (simp add: normalize_text_def)
next
  case False
  let ?f = "filter is_alnum_space (remove_accents U v)"
  let ?j = "str_join (py '' '') (str_split U ?f)"
  have "\<forall>c\<in>set ?f. is_alnum_space c" by simp
  then have "\<forall>c\<in>set ?j. is_alnum_space c" by (rule collapsed_alnum_space)
  then have "\<forall>c\<in>set (str_upper U ?j). is_upper_alnum_space c"
    by (rule str_upper_alnum_space)
  moreover have "normalize_text U v n = slice_to (str_upper U ?j) n"
    using False by (simp add: normalize_text_def Let_def)
  ultimately show ?thesis using set_slice_to [of "str_upper U ?j" n] by auto
qed

lemma is_ascii_normalize_text: "is_ascii (normalize_text U v n)"
  using normalize_text_chars [of U v n]
  by (auto simp: is_ascii_set is_upper_alnum_space_def)

lemma is_ascii_normalize_txid: "is_ascii (normalize_txid U v n)"
proof (cases "v = []")
  case True
  then show ?thesis by (simp add: normalize_txid_def py_def)
next
  case False
  let ?f = "filter is_alnum (remove_accents U v)"
  have "\<forall>c\<in>set ?f. is_alnum_space c" by (simp add: is_alnum_space_def)
  then have "\<forall>c\<in>set (str_upper U ?f). is_upper_alnum_space c"
    by (rule str_upper_alnum_space)
  then have "\<forall>c\<in>set (slice_to (str_upper U ?f) n). is_upper_alnum_space c"
    using set_slice_to [of "str_upper U ?f" n] by blast
  then have "is_ascii (slice_to (str_upper U ?f) n)"
    by (auto simp: is_ascii_set is_upper_alnum_space_def)
  then show ?thesis using False by (simp add: normalize_txid_def Let_def py_def)
qed

lemma amount_is_positive_not_NaN: "amt \<noteq> Some NaN \<Longrightarrow> \<exists>b. amount_is_positive amt = Inr b"
proof (cases amt)
  case None
  then have "amount_is_positive amt = Inr False" by (simp add: amount_is_positive_def)
  then show ?thesis by blast
next
  case (Some a)
  assume "amt \<noteq> Some NaN"
  with Some have "a \<noteq> NaN" by simp
  then have "\<exists>b. decimal_gt_zero a = Inr b"
    by (cases a) (simp_all add: decimal_gt_zero_def)
  with Some show ?thesis by (simp add: amount_is_positive_def)
qed

lemma calculate_crc16_encodable:
  assumes "encodable payload"
  shows "\<exists>crc. calculate_crc16 payload = Inr crc"
proof -
  have "encodable (payload @ CRC16 @ py ''04'')"
    using assms by (simp add: CRC16_def py_def encodable_def)
  from utf8_encode_encodable [OF this] show ?thesis
    by (auto simp: calculate_crc16_def Let_def)
qed

lemma encodable_merchant_account_content:
  assumes "encodable (normalize_pix_key U
             (if pix_key payload \<noteq> [] then pix_key payload else self_pix_key self))"
  shows "encodable (merchant_account_content U self payload)"
proof -
  have "is_ascii (format_emv_field (py ''00'') PIX_GUI)"
    by (rule is_ascii_format_emv_field) (simp_all add: PIX_GUI_def py_def)
  moreover have "encodable (format_emv_field (py ''01'') (normalize_pix_key U
             (if pix_key payload \<noteq> [] then pix_key payload else self_pix_key self)))"
    using assms by (intro encodable_format_emv_field) (simp_all add: py_def)
  moreover have "is_ascii (format_emv_field (py ''02'')
                   (normalize_text U (description payload) 25))"
    by (intro is_ascii_format_emv_field is_ascii_normalize_text) (simp add: py_def)
  ultimately show ?thesis
    by (simp add: merchant_account_content_def Let_def is_ascii_encodable)
qed

lemma encodable_fields_before_crc:
  assumes "encodable (normalize_pix_key U (if key \<noteq> [] then key else k))"
  shows "encodable (serialize
           (fields_before_crc U (PixService_init U k name city) amt descr txid key))"
proof -
  let ?self = "PixService_init U k name city"
  let ?payload = "make_payload ?self amt descr txid key"
  have key: "(if pix_key ?payload \<noteq> [] then pix_key ?payload else self_pix_key ?self)
               = (if key \<noteq> [] then key else k)"
    by (simp add: make_payload_def PixService_init_def)
  have a: "is_ascii t \<Longrightarrow> is_ascii v \<Longrightarrow> encodable (format_emv_field t v)" for t v
    by (simp add: is_ascii_encodable is_ascii_format_emv_field)
  have f26: "encodable (format_emv_field (py ''26'') (merchant_account_content U ?self ?payload))"
    using assms encodable_merchant_account_content [of U ?payload ?self]
    by (intro encodable_format_emv_field) (simp_all add: key py_def)
  have f54: "encodable (format_emv_field (py ''54'') (fixed_2f (the amt)))"
    by (intro a is_ascii_fixed_2f) (simp add: py_def)
  have f59: "encodable (format_emv_field (py ''59'')
               (if self_merchant_name ?self \<noteq> [] then self_merchant_name ?self
                else py ''PAGAMENTO''))"
    by (intro a) (simp_all add: PixService_init_def is_ascii_normalize_text py_def)
  have f60: "encodable (format_emv_field (py ''60'')
               (if self_merchant_city ?self \<noteq> [] then self_merchant_city ?self
                else py ''BRASIL''))"
    by (intro a) (simp_all add: PixService_init_def is_ascii_normalize_text py_def)
  have f62: "encodable (format_emv_field (py ''62'')
               (format_emv_field (py ''05'') (normalize_txid U txid 25)))"
    by (intro a is_ascii_format_emv_field is_ascii_normalize_txid) (simp_all add: py_def)
  have c: "encodable (format_emv_field (py ''00'') (py ''01''))"
      "encodable (format_emv_field (py ''52'') (py ''0000''))"
      "encodable (format_emv_field (py ''53'') (py ''986''))"
      "encodable (format_emv_field (py ''58'') (py ''BR''))"
    by (intro a; simp add: py_def)+
  show ?thesis
    unfolding fields_before_crc_def using f26 f54 f59 f60 f62 c by simp
qed

text \<open>
  The Decimals that \<^verbatim>\<open>f"{amount:.2f}"\<close> formats: the special values, zero with any exponent,
  and a finite value whose coefficient, rescaled to hundredths, has at most
  \<^verbatim>\<open>MAX_PREC + 1\<close> digits and whose characters fit in memory.
\<close>

definition within_format_limits :: "interpreter \<Rightarrow> Decimal \<Rightarrow> bool" where
  "within_format_limits U d =
     (case d of
        Finite sign coefficient exponent \<Rightarrow>
          (coefficient = 0
           \<or> int (length (str_nat coefficient)) + (exponent + 2) \<le> MAX_PREC + 1)
          \<and> length (fixed_2f d) \<le> format_capacity U
      | Infinity sign \<Rightarrow> True
      | NaN \<Rightarrow> True)"

lemma format_2f_within_limits:
  "format_2f U d = Inr v \<longleftrightarrow> within_format_limits U d \<and> v = fixed_2f d"
  by (cases d) (auto simp: format_2f_def within_format_limits_def)

lemma format_2f_raises:
  "\<not> within_format_limits U d \<longleftrightarrow>
     format_2f U d = Inl ValueError \<or> format_2f U d = Inl MemoryError"
  by (cases d) (auto simp: format_2f_def within_format_limits_def)

lemma generate_pix_code_total:
  assumes "amt \<noteq> Some NaN"
    and "\<forall>a. amt = Some a \<and> decimal_gt_zero a = Inr True \<longrightarrow> within_format_limits U a"
    and "encodable (normalize_pix_key U (if key \<noteq> [] then key else k))"
  shows "\<exists>s. generate_pix_code U (PixService_init U k name city) amt descr txid key = Inr s"
proof -
  from amount_is_positive_not_NaN [OF assms(1)] obtain b
    where b: "amount_is_positive amt = Inr b" by blast
  have "\<exists>v. format_amount U amt b = Inr v"
  proof (cases b)
    case True
    with b obtain a where a: "amt = Some a" "decimal_gt_zero a = Inr True"
      by (auto simp: amount_is_positive_iff)
    with assms(2) have "within_format_limits U a" by blast
    then have "format_2f U a = Inr (fixed_2f a)" by (simp add: format_2f_within_limits)
    with True a show ?thesis by (simp add: format_amount_def)
  next
    case False
    then show ?thesis by (simp add: format_amount_def)
  qed
  then obtain v where v: "format_amount U amt b = Inr v" by blast
  from calculate_crc16_encodable [OF encodable_fields_before_crc [OF assms(3)]] obtain crc
    where "calculate_crc16 (serialize
             (fields_before_crc U (PixService_init U k name city) amt descr txid key)) = Inr crc"
    by blast
  with b v show ?thesis unfolding generate_pix_code_eq by simp
qed

lemma generate_pix_code_raises_format:
  assumes "decimal_gt_zero a = Inr True" and "format_2f U a = Inl e"
  shows "generate_pix_code U self (Some a) descr txid key = Inl e"
  unfolding generate_pix_code_eq using assms
  by (simp add: amount_is_positive_def format_amount_def)

lemma example_fields_without_amount:
  "fields_before_crc ucd_ascii example_service None [] [] [] =
     [(py ''00'', py ''01''),
      (py ''26'', py ''0014br.gov.bcb.pix0116test@example.com''),
      (py ''52'', py ''0000''), (py ''53'', py ''986''),
      (py ''58'', py ''BR''), (py ''59'', py ''LOJA TESTE''), (py ''60'', py ''SAO PAULO''),
      (py ''62'', py ''0503***'')]"
  by (simp add: fields_before_crc_def example_service_def PixService_init_def make_payload_def
      merchant_account_content_def example_key example_name example_city example_txid
      Let_def amount_is_positive_def format_emv_field_eq PIX_GUI_def)
    (simp add: py_def str_nat.simps)

lemma example_body_without_amount:
  "serialize (fields_before_crc ucd_ascii example_service None [] [] [])
     = py ''00020126380014br.gov.bcb.pix0116test@example.com5204000053039865802BR5910LOJA TESTE6009SAO PAULO62070503***''"
  unfolding example_fields_without_amount by (simp add: format_emv_field_eq py_def str_nat.simps)

lemma example_crc_without_amount:
  "calculate_crc16 (py ''00020126380014br.gov.bcb.pix0116test@example.com5204000053039865802BR5910LOJA TESTE6009SAO PAULO62070503***'')
     = Inr (py ''0106'')"
  by (simp add: py_def crc16_eval)

lemma example_without_amount:
  "generate_pix_code ucd_ascii example_service None [] [] []
     = Inr (py ''00020126380014br.gov.bcb.pix0116test@example.com5204000053039865802BR5910LOJA TESTE6009SAO PAULO62070503***63040106'')"
  unfolding generate_pix_code_eq example_body_without_amount example_crc_without_amount
  by (simp add: amount_is_positive_def format_amount_def CRC16_def py_def)

lemma surrogate_key_raises:
  "generate_pix_code ucd_ascii example_service None [] [] [0xD800] = Inl UnicodeEncodeError"
proof -
  have k: "normalize_pix_key ucd_ascii [0xD800] = [0xD800]"
    by (simp add: normalize_pix_key_eval ucd_ascii_def py_def)
  have f: "fields_before_crc ucd_ascii example_service None [] [] [0xD800] =
     [(py ''00'', py ''01''),
      (py ''26'', py ''0014br.gov.bcb.pix0101'' @ [0xD800]),
      (py ''52'', py ''0000''), (py ''53'', py ''986''),
      (py ''58'', py ''BR''), (py ''59'', py ''LOJA TESTE''), (py ''60'', py ''SAO PAULO''),
      (py ''62'', py ''0503***'')]"
    by (simp add: fields_before_crc_def example_service_def PixService_init_def make_payload_def
        merchant_account_content_def k example_name example_city example_txid
        Let_def amount_is_positive_def format_emv_field_eq PIX_GUI_def)
      (simp add: py_def str_nat.simps)
  have "calculate_crc16 (serialize (fields_before_crc ucd_ascii example_service None [] [] [0xD800]))
          = Inl UnicodeEncodeError"
    unfolding f by (simp add: format_emv_field_eq py_def str_nat.simps crc16_eval)
  then show ?thesis
    unfolding generate_pix_code_eq by (simp add: amount_is_positive_def format_amount_def)
qed

text \<open>
  \<^verbatim>\<open>Decimal("1E+999999999999999998")\<close> is finite and greater than zero, and formatting it
  raises ValueError before any later field is built.
\<close>

lemma huge_amount_raises:
  "generate_pix_code ucd_ascii example_service (Some (Finite False 1 999999999999999998)) [] [] []
     = Inl ValueError"
proof -
  have "format_2f ucd_ascii (Finite False 1 999999999999999998) = Inl ValueError"
    by (simp add: format_2f_def MAX_PREC_def str_nat.simps)
  moreover have "decimal_gt_zero (Finite False 1 999999999999999998) = Inr True"
    by (simp add: decimal_gt_zero_def)
  ultimately show ?thesis by (rule generate_pix_code_raises_format [rotated])
qed

text \<open>
  C4, as the code has it. The module has no InvalidAmount error. For every service and
  request whose amount is supplied and not greater than zero (negative or zero, finite or
  an infinity), \<^verbatim>\<open>generate_pix_code\<close> does exactly what it does for the same request without
  an amount: no amount field is formatted.
\<close>

theorem C4_nonpositive_amount_as_none:
  "decimal_gt_zero a = Inr False \<Longrightarrow>
   generate_pix_code U self (Some a) descr txid key
     = generate_pix_code U self None descr txid key"
  by (rule generate_pix_code_nonpositive)

theorem C4_nonpositive_amount_as_none_witness:
  "decimal_gt_zero (Finite True 1 0) = Inr False
   \<and> generate_pix_code ucd_ascii example_service (Some (Finite True 1 0)) [] [] []
       = generate_pix_code ucd_ascii example_service None [] [] []"
proof -
  have n: "decimal_gt_zero (Finite True 1 0) = Inr False"
    by (simp add: decimal_gt_zero_def)
  from n C4_nonpositive_amount_as_none [OF n] show ?thesis by (rule conjI)
qed

text \<open>
  C4 as the specification states it fails: for the amount \<^verbatim>\<open>Decimal("-1")\<close> the example
  service returns a payload, the one it returns without an amount.
\<close>

theorem C4_negative_amount_counterexample:
  "generate_pix_code ucd_ascii example_service (Some (Finite True 1 0)) [] [] []
     = Inr (py ''00020126380014br.gov.bcb.pix0116test@example.com5204000053039865802BR5910LOJA TESTE6009SAO PAULO62070503***63040106'')"
proof -
  have "decimal_gt_zero (Finite True 1 0) = Inr False" by (simp add: decimal_gt_zero_def)
  from generate_pix_code_nonpositive [OF this] example_without_amount show ?thesis by simp
qed

text \<open>
  C10, as the code has it. For every key, name, city, description and transaction id, and
  every amount that is \<^verbatim>\<open>None\<close> or a Decimal other than NaN, \<^verbatim>\<open>generate_pix_code\<close> of a
  service made by the constructor returns a string, provided the normalised key has no
  surrogate code point and the amount, if it is greater than zero, is within the limits of
  \<^verbatim>\<open>f"{amount:.2f}"\<close>; there is no bound on the length of any value. An amount that is not
  greater than zero is treated as no amount, whatever its size. An amount greater than zero
  that is beyond those limits makes \<^verbatim>\<open>generate_pix_code\<close> raise ValueError or MemoryError.
\<close>

theorem C10_encoding_total:
  "(amt \<noteq> Some NaN
    \<and> (\<forall>d. amt = Some d \<and> decimal_gt_zero d = Inr True \<longrightarrow> within_format_limits U d)
    \<and> encodable (normalize_pix_key U (if key \<noteq> [] then key else k)) \<longrightarrow>
      (\<exists>s. generate_pix_code U (PixService_init U k name city) amt descr txid key = Inr s))
   \<and> (decimal_gt_zero a = Inr False \<longrightarrow>
        generate_pix_code U self (Some a) descr txid key
          = generate_pix_code U self None descr txid key)
   \<and> (decimal_gt_zero b = Inr True \<and> \<not> within_format_limits U b \<longrightarrow>
        generate_pix_code U self (Some b) descr txid key = Inl ValueError
        \<or> generate_pix_code U self (Some b) descr txid key = Inl MemoryError)"
proof (intro conjI impI)
  assume "amt \<noteq> Some NaN
    \<and> (\<forall>d. amt = Some d \<and> decimal_gt_zero d = Inr True \<longrightarrow> within_format_limits U d)
    \<and> encodable (normalize_pix_key U (if key \<noteq> [] then key else k))"
  then show "\<exists>s. generate_pix_code U (PixService_init U k name city) amt descr txid key
                = Inr s"
    using generate_pix_code_total [of amt U key k name city descr txid] by blast
next
  assume "decimal_gt_zero a = Inr False"
  then show "generate_pix_code U self (Some a) descr txid key
          = generate_pix_code U self None descr txid key"
    by (rule generate_pix_code_nonpositive)
next
  assume b: "decimal_gt_zero b = Inr True \<and> \<not> within_format_limits U b"
  then have "format_2f U b = Inl ValueError \<or> format_2f U b = Inl MemoryError"
    by (simp add: format_2f_raises)
  with b show "generate_pix_code U self (Some b) descr txid key = Inl ValueError
        \<or> generate_pix_code U self (Some b) descr txid key = Inl MemoryError"
    using generate_pix_code_raises_format [of b U _ self descr txid key] by blast
qed

theorem C10_encoding_total_witness:
  "Some (Finite False 105 (- 1)) \<noteq> Some NaN
   \<and> decimal_gt_zero (Finite False 105 (- 1)) = Inr True
   \<and> within_format_limits ucd_ascii (Finite False 105 (- 1))
   \<and> encodable (normalize_pix_key ucd_ascii (py ''test@example.com''))
   \<and> (\<exists>s. generate_pix_code ucd_ascii (PixService_init ucd_ascii [] [] [])
            (Some (Finite False 105 (- 1))) [] [] (py ''test@example.com'') = Inr s)
   \<and> decimal_gt_zero (Finite True 1 0) = Inr False
   \<and> generate_pix_code ucd_ascii example_service (Some (Finite True 1 0)) [] []
         (py ''test@example.com'')
       = generate_pix_code ucd_ascii example_service None [] [] (py ''test@example.com'')
   \<and> decimal_gt_zero (Finite False 1 999999999999999998) = Inr True
   \<and> \<not> within_format_limits ucd_ascii (Finite False 1 999999999999999998)
   \<and> (generate_pix_code ucd_ascii example_service (Some (Finite False 1 999999999999999998))
         [] [] (py ''test@example.com'') = Inl ValueError
      \<or> generate_pix_code ucd_ascii example_service (Some (Finite False 1 999999999999999998))
         [] [] (py ''test@example.com'') = Inl MemoryError)"
proof -
  have k: "encodable (normalize_pix_key ucd_ascii (py ''test@example.com''))"
    unfolding example_key by (simp add: py_def encodable_def)
  have p: "decimal_gt_zero (Finite False 105 (- 1)) = Inr True"
    by (simp add: decimal_gt_zero_def)
  have w: "within_format_limits ucd_ascii (Finite False 105 (- 1))"
    unfolding within_format_limits_def Decimal.case example_amount
    by (simp add: MAX_PREC_def ucd_ascii_def py_def str_nat.simps)
  have n: "decimal_gt_zero (Finite True 1 0) = Inr False"
    by (simp add: decimal_gt_zero_def)
  have h: "decimal_gt_zero (Finite False 1 999999999999999998) = Inr True"
    by (simp add: decimal_gt_zero_def)
  have l: "\<not> within_format_limits ucd_ascii (Finite False 1 999999999999999998)"
    by (simp add: within_format_limits_def MAX_PREC_def str_nat.simps)
  have key: "py ''test@example.com'' \<noteq> []" by (simp add: py_def)
  show ?thesis
    using C10_encoding_total [where amt = "Some (Finite False 105 (- 1))"
        and key = "py ''test@example.com''" and U = ucd_ascii and k = "[]" and name = "[]"
        and city = "[]" and descr = "[]" and txid = "[]" and a = "Finite True 1 0"
        and b = "Finite False 1 999999999999999998" and self = example_service] k p w n h l key
    by simp
qed

text \<open>
  C10 as it is stated fails: with the amount \<^verbatim>\<open>Decimal("NaN")\<close> the comparison
  \<^verbatim>\<open>amount > 0\<close> raises InvalidOperation. (A key with a lone surrogate raises
  UnicodeEncodeError, \<open>surrogate_key_raises\<close>, and the amount
  \<^verbatim>\<open>Decimal("1E+999999999999999998")\<close> ValueError, \<open>huge_amount_raises\<close>.)
\<close>

theorem C10_nan_amount_counterexample:
  "generate_pix_code ucd_ascii example_service (Some NaN) [] [] [] = Inl InvalidOperation"
  unfolding generate_pix_code_eq by (simp add: amount_is_positive_def decimal_gt_zero_def)

section \<open>Lengths of the fields\<close>

text \<open>
  \<open>tlv_total\<close> is the length that a list of fields has when every field is a tag of two
  characters, a length of two digits and the value. \<open>long_key\<close> is an e-mail key of 100
  characters, the longest that the \<^verbatim>\<open>pix_key\<close> column of an event accepts.
\<close>

definition tlv_total :: "(str \<times> str) list \<Rightarrow> nat" where
  "tlv_total fs = sum_list (map (\<lambda>(tag, val). 2 + 2 + length val) fs)"

definition long_key :: str where
  "long_key = py ''aaaaaaaaaaaaaaaaaaaaaaaaaaaaaaaaaaaaaaaaaaaaaaaaaaaaaaaaaaaaaaaaaaaaaaaaaaaaaaaaaaaaaaaa@example.com''"

lemma long_key_length: "length long_key = 100"
  by (simp add: long_key_def py_def)

lemma long_key_normalized: "normalize_pix_key ucd_ascii long_key = long_key"
  by (simp add: long_key_def normalize_pix_key_eval py_def)

lemma long_key_fields:
  "fields_before_crc ucd_ascii example_service None [] [] long_key =
     [(py ''00'', py ''01''),
      (py ''26'', py ''0014br.gov.bcb.pix01100'' @ long_key),
      (py ''52'', py ''0000''), (py ''53'', py ''986''),
      (py ''58'', py ''BR''), (py ''59'', py ''LOJA TESTE''), (py ''60'', py ''SAO PAULO''),
      (py ''62'', py ''0503***'')]"
proof -
  have ne: "long_key \<noteq> []" using long_key_length by auto
  have k: "format_emv_field (py ''01'') long_key = py ''01100'' @ long_key"
    by (simp add: format_emv_field_eq long_key_length str_nat.simps py_def)
  show ?thesis
    by (simp add: fields_before_crc_def example_service_def PixService_init_def make_payload_def
        merchant_account_content_def long_key_normalized ne k example_name example_city
        example_txid Let_def amount_is_positive_def PIX_GUI_def)
      (simp add: format_emv_field_eq py_def str_nat.simps)
qed

lemma long_key_body:
  "serialize (fields_before_crc ucd_ascii example_service None [] [] long_key)
     = py ''000201261230014br.gov.bcb.pix01100'' @ long_key
       @ py ''5204000053039865802BR5910LOJA TESTE6009SAO PAULO62070503***''"
  unfolding long_key_fields
  by (simp add: format_emv_field_eq long_key_length py_def str_nat.simps)

lemma long_key_crc:
  "calculate_crc16 (py ''000201261230014br.gov.bcb.pix01100'' @ long_key
       @ py ''5204000053039865802BR5910LOJA TESTE6009SAO PAULO62070503***'')
     = Inr (py ''A004'')"
  by (simp add: long_key_def py_def crc16_eval)

lemma long_key_payload:
  "generate_pix_code ucd_ascii example_service None [] [] long_key
     = Inr (py ''000201261230014br.gov.bcb.pix01100'' @ long_key
            @ py ''5204000053039865802BR5910LOJA TESTE6009SAO PAULO62070503***6304A004'')"
  unfolding generate_pix_code_eq long_key_body long_key_crc
  by (simp add: amount_is_positive_def format_amount_def CRC16_def py_def)

lemma length_format_emv_field_short:
  "length val \<le> 99 \<Longrightarrow> length (format_emv_field tag val) = length tag + 2 + length val"
  by (simp add: format_emv_field_short)

lemma length_serialize_short:
  "(\<And>tag val. (tag, val) \<in> set fs \<Longrightarrow> length tag = 2 \<and> length val \<le> 99) \<Longrightarrow>
   length (serialize fs) = tlv_total fs"
proof (induction fs)
  case Nil
  show ?case by (simp add: tlv_total_def)
next
  case (Cons f fs)
  obtain tag val where f: "f = (tag, val)" by (cases f)
  have "length tag = 2 \<and> length val \<le> 99" using Cons.prems [of tag val] f by simp
  moreover have "length (serialize fs) = tlv_total fs"
    using Cons.prems by (intro Cons.IH) auto
  ultimately show ?case
    by (simp add: f tlv_total_def length_format_emv_field_short)
qed

text \<open>
  C5 at the key \<open>long_key\<close>. The payload has 201 characters, the fields it was built from
  add up to 200; the value of tag 26 has 123 characters, its two sub-fields add up to 122.
  The key field is written \<^verbatim>\<open>01100...\<close> and the account field \<^verbatim>\<open>26123...\<close>, with lengths
  of three digits. (When every value has at most 99 characters the lengths agree:
  \<open>length_serialize_short\<close>.)
\<close>

theorem C5_length_mismatch_at_long_key:
  "generate_pix_code ucd_ascii example_service None [] [] long_key
     = Inr (py ''000201261230014br.gov.bcb.pix01100'' @ long_key
            @ py ''5204000053039865802BR5910LOJA TESTE6009SAO PAULO62070503***6304A004'')
   \<and> length (py ''000201261230014br.gov.bcb.pix01100'' @ long_key
            @ py ''5204000053039865802BR5910LOJA TESTE6009SAO PAULO62070503***6304A004'') = 201
   \<and> tlv_total (fields_before_crc ucd_ascii example_service None [] [] long_key
                 @ [(CRC16, py ''A004'')]) = 200
   \<and> merchant_account_content ucd_ascii example_service
         (make_payload example_service None [] [] long_key)
       = serialize [(py ''00'', PIX_GUI), (py ''01'', long_key)]
   \<and> length (serialize [(py ''00'', PIX_GUI), (py ''01'', long_key)]) = 123
   \<and> tlv_total [(py ''00'', PIX_GUI), (py ''01'', long_key)] = 122"
proof -
  have ne: "long_key \<noteq> []" using long_key_length by auto
  have c: "merchant_account_content ucd_ascii example_service
         (make_payload example_service None [] [] long_key)
       = serialize [(py ''00'', PIX_GUI), (py ''01'', long_key)]"
    by (simp add: merchant_account_content_def make_payload_def long_key_normalized ne Let_def)
  have l: "length (serialize [(py ''00'', PIX_GUI), (py ''01'', long_key)]) = 123"
    by (simp add: format_emv_field_eq long_key_length PIX_GUI_def py_def str_nat.simps)
  have t: "tlv_total [(py ''00'', PIX_GUI), (py ''01'', long_key)] = 122"
    by (simp add: tlv_total_def long_key_length PIX_GUI_def py_def)
  have t': "tlv_total (fields_before_crc ucd_ascii example_service None [] [] long_key
                 @ [(CRC16, py ''A004'')]) = 200"
    unfolding long_key_fields by (simp add: tlv_total_def long_key_length py_def)
  have n: "length (py ''000201261230014br.gov.bcb.pix01100'' @ long_key
            @ py ''5204000053039865802BR5910LOJA TESTE6009SAO PAULO62070503***6304A004'') = 201"
    by (simp add: long_key_length py_def)
  from long_key_payload n t' c l t show ?thesis by (intro conjI)
qed

section \<open>The key normaliser\<close>

text \<open>
  A string is stripped when it neither starts nor ends with white space; \<^verbatim>\<open>strip\<close> returns
  such strings and leaves them as they are.
\<close>

definition stripped :: "interpreter \<Rightarrow> str \<Rightarrow> bool" where
  "stripped U s = (s = [] \<or> (\<not> isspace U (hd s) \<and> \<not> isspace U (last s)))"

lemma stripped_str_strip: "stripped U (str_strip U s)"
proof -
  let ?a = "dropWhile (isspace U) s"
  let ?b = "dropWhile (isspace U) (rev ?a)"
  show ?thesis
  proof (cases "?b = []")
    case True
    then show ?thesis by (simp add: stripped_def str_strip_def)
  next
    case False
    then have "\<not> isspace U (hd ?b)" by (rule hd_dropWhile)
    then have l: "\<not> isspace U (last (rev ?b))" using False by (simp add: last_rev)
    have "?a \<noteq> []"
    proof
      assume a: "?a = []"
      have "?b = []" unfolding a by simp
      with False show False by blast
    qed
    then have ha: "\<not> isspace U (hd ?a)" by (rule hd_dropWhile)
    have "rev ?a = takeWhile (isspace U) (rev ?a) @ ?b" by simp
    then have "?a = rev ?b @ rev (takeWhile (isspace U) (rev ?a))"
      by (metis rev_append rev_rev_ident)
    then have "hd ?a = hd (rev ?b)" using False by (metis hd_append2 rev_is_Nil_conv)
    with ha l show ?thesis by (simp add: stripped_def str_strip_def)
  qed
qed

lemma str_strip_stripped: "stripped U s \<Longrightarrow> str_strip U s = s"
proof (cases "s = []")
  case True
  then show ?thesis by (simp add: str_strip_def)
next
  case False
  assume "stripped U s"
  with False have h: "\<not> isspace U (hd s)" and l: "\<not> isspace U (last s)"
    by (simp_all add: stripped_def)
  from False h have a: "dropWhile (isspace U) s = s" by (cases s) simp_all
  from False l have "dropWhile (isspace U) (rev s) = rev s"
    by (cases "rev s") (simp_all add: last_rev hd_rev [symmetric])
  then show ?thesis by (simp add: str_strip_def a)
qed

lemma str_strip_nonempty: "str_strip U s \<noteq> [] \<Longrightarrow> s \<noteq> []"
  by (auto simp: str_strip_def)

lemma stripped_no_newline: "stripped U s \<Longrightarrow> s \<noteq> [] \<Longrightarrow> last s \<noteq> 10"
  by (auto simp: stripped_def class_eval)

text \<open>
  The conditions of \<^verbatim>\<open>_normalize_pix_key\<close> on the stripped key, in the order of the source:
  e-mail, UUID, 32 hexadecimal characters, formatted CPF, CNPJ pattern, telephone (with
  or without a country code). \<open>normalize_pix_key_rules\<close> restates the function with them.
\<close>

definition digits_of :: "interpreter \<Rightarrow> str \<Rightarrow> str" where
  "digits_of U k = filter (isdecimal U) k"

definition rule_email :: "str \<Rightarrow> bool" where
  "rule_email k = (64 \<in> set k)"

definition rule_uuid :: "str \<Rightarrow> bool" where
  "rule_uuid k = re_match uuid_pattern k"

definition rule_hex32 :: "str \<Rightarrow> bool" where
  "rule_hex32 k = (length (filter is_hex k) = 32 \<and> re_match hex_pattern k)"

definition rule_cpf_formatted :: "interpreter \<Rightarrow> str \<Rightarrow> bool" where
  "rule_cpf_formatted U k =
     (re_match (cpf_formatted_pattern U) k \<and> length (digits_of U k) = 11)"

definition rule_cnpj_formatted :: "interpreter \<Rightarrow> str \<Rightarrow> bool" where
  "rule_cnpj_formatted U k = (re_match (cnpj_pattern U) k \<and> length (digits_of U k) = 14)"

definition has_country_code :: "interpreter \<Rightarrow> str \<Rightarrow> bool" where
  "has_country_code U k =
     (startswith k (py ''+'')
      \<or> (startswith (digits_of U k) (py ''55'') \<and> 12 \<le> length (digits_of U k)))"

definition rule_phone :: "interpreter \<Rightarrow> str \<Rightarrow> bool" where
  "rule_phone U k =
     ((has_country_code U k \<or> list_ex (\<lambda>c. c = 40 \<or> c = 41) k
       \<or> looks_like_br_phone U (digits_of U k))
      \<and> digits_of U k \<noteq> [])"

definition hyphenate :: "str \<Rightarrow> str" where
  "hyphenate h =
     slice h 0 8 @ py ''-'' @ slice h 8 12 @ py ''-'' @ slice h 12 16 @ py ''-''
     @ slice h 16 20 @ py ''-'' @ slice_from h 20"

lemma normalize_pix_key_rules:
  "normalize_pix_key U key =
     (if key = [] then []
      else if rule_email (str_strip U key) then str_lower U (str_strip U key)
      else if rule_uuid (str_strip U key) then str_lower U (str_strip U key)
      else if rule_hex32 (str_strip U key)
        then str_lower U (hyphenate (filter is_hex (str_strip U key)))
      else if rule_cpf_formatted U (str_strip U key) then digits_of U (str_strip U key)
      else if rule_cnpj_formatted U (str_strip U key) then digits_of U (str_strip U key)
      else if rule_phone U (str_strip U key)
        then (if has_country_code U (str_strip U key)
              then py ''+'' @ digits_of U (str_strip U key)
              else py ''+55'' @ digits_of U (str_strip U key))
      else if length (digits_of U (str_strip U key)) = 14 then digits_of U (str_strip U key)
      else if length (digits_of U (str_strip U key)) = 11 then digits_of U (str_strip U key)
      else str_strip U key)"
  unfolding normalize_pix_key_def Let_def rule_email_def rule_uuid_def rule_hex32_def
    rule_cpf_formatted_def rule_cnpj_formatted_def rule_phone_def has_country_code_def
    digits_of_def hyphenate_def
  by auto

text \<open>Facts about \<open>re_match\<close>: the characters of a match, and a match under a renaming.\<close>

fun re_item_accepts :: "re_item \<Rightarrow> codepoint \<Rightarrow> bool" where
  "re_item_accepts (Class p n) c = p c"
| "re_item_accepts (Plus p) c = p c"
| "re_item_accepts (Lit x) c = (c = x)"
| "re_item_accepts (Opt x) c = (c = x)"

fun re_item_stable :: "(codepoint \<Rightarrow> codepoint) \<Rightarrow> re_item \<Rightarrow> bool" where
  "re_item_stable f (Class p n) = (\<forall>c. p c \<longrightarrow> p (f c))"
| "re_item_stable f (Plus p) = (\<forall>c. p c \<longrightarrow> p (f c))"
| "re_item_stable f (Lit x) = (f x = x)"
| "re_item_stable f (Opt x) = (f x = x)"

lemma re_match_chars:
  "re_match ps s \<Longrightarrow> c \<in> set s \<Longrightarrow> c = 10 \<or> (\<exists>i\<in>set ps. re_item_accepts i c)"
proof (induction ps s rule: re_match.induct)
  case (1 s)
  then show ?case by auto
next
  case (2 p n r s)
  from "2.prems" have m: "list_all p (take n s)" "re_match r (drop n s)" by simp_all
  from "2.prems" have "c \<in> set (take n s) \<or> c \<in> set (drop n s)"
    by (metis Un_iff append_take_drop_id set_append)
  then show ?case
  proof
    assume "c \<in> set (take n s)"
    with m show ?thesis by (auto simp: list_all_iff)
  next
    assume "c \<in> set (drop n s)"
    with "2.IH" m show ?thesis by auto
  qed
next
  case (3 p r s)
  from "3.prems" obtain n where n: "n \<in> set [1 ..< Suc (length s)]"
    and m: "list_all p (take n s)" "re_match r (drop n s)"
    by (auto simp: list_ex_iff)
  from "3.prems" have "c \<in> set (take n s) \<or> c \<in> set (drop n s)"
    by (metis Un_iff append_take_drop_id set_append)
  then show ?case
  proof
    assume "c \<in> set (take n s)"
    with m show ?thesis by (auto simp: list_all_iff)
  next
    assume "c \<in> set (drop n s)"
    with "3.IH" [OF n m(2)] show ?thesis by auto
  qed
next
  case (4 x r s)
  then show ?case by (cases s) auto
next
  case (5 x r s)
  then show ?case by (cases s) auto
qed

lemma re_match_map:
  "re_match ps s \<Longrightarrow> \<forall>i\<in>set ps. re_item_stable f i \<Longrightarrow> f 10 = 10 \<Longrightarrow>
   re_match ps (map f s)"
proof (induction ps s rule: re_match.induct)
  case (1 s)
  then show ?case by auto
next
  case (2 p n r s)
  from "2.prems" have m: "n \<le> length s" "list_all p (take n s)" "re_match r (drop n s)"
    and st: "\<forall>c. p c \<longrightarrow> p (f c)" by simp_all
  from m(2) st have "list_all p (take n (map f s))"
    by (auto simp: take_map list_all_iff)
  moreover have "re_match r (drop n (map f s))"
    using "2.IH" [OF m(3)] "2.prems" by (simp add: drop_map)
  ultimately show ?case using m(1) by simp
next
  case (3 p r s)
  from "3.prems" obtain n where n: "n \<in> set [1 ..< Suc (length s)]"
    and m: "list_all p (take n s)" "re_match r (drop n s)"
    by (auto simp: list_ex_iff)
  from "3.prems" have st: "\<forall>c. p c \<longrightarrow> p (f c)" by simp
  from m(1) st have "list_all p (take n (map f s))"
    by (auto simp: take_map list_all_iff)
  moreover have "re_match r (drop n (map f s))"
    using "3.IH" [OF n m(2)] "3.prems" by (simp add: drop_map)
  ultimately show ?case using n by (auto simp: list_ex_iff)
next
  case (4 x r s)
  then show ?case by (cases s) auto
next
  case (5 x r s)
  then show ?case by (cases s) auto
qed

lemma list_all_take_hd:
  "list_all p (take n s) \<Longrightarrow> 0 < n \<Longrightarrow> n \<le> length s \<Longrightarrow> s \<noteq> [] \<and> p (hd s)"
  by (cases s; cases n) auto

lemma re_match_Class_hd:
  "re_match (Class p n # r) s \<Longrightarrow> 0 < n \<Longrightarrow> s \<noteq> [] \<and> p (hd s)"
  using list_all_take_hd [of p n s] by simp

lemma re_match_Plus_hd: "re_match (Plus p # r) s \<Longrightarrow> s \<noteq> [] \<and> p (hd s)"
proof -
  assume "re_match (Plus p # r) s"
  then have "\<exists>n\<in>set [1 ..< Suc (length s)]. list_all p (take n s)"
    unfolding re_match.simps list_ex_iff by blast
  then obtain n where "n \<in> set [1 ..< Suc (length s)]" and a: "list_all p (take n s)"
    by blast
  then have "0 < n" and "n \<le> length s" by auto
  with a show ?thesis using list_all_take_hd [of p n s] by simp
qed

lemma re_match_Class_Lit:
  "re_match (Class p n # Lit x # r) s \<Longrightarrow> n < length s \<and> s ! n = x"
proof -
  assume "re_match (Class p n # Lit x # r) s"
  then have n: "n \<le> length s" and "re_match (Lit x # r) (drop n s)" by simp_all
  then obtain t where t: "drop n s = x # t" by (cases "drop n s") auto
  then have "n < length s" using n by (cases "n = length s") auto
  moreover from this t have "s ! n = x" by (metis hd_drop_conv_nth list.sel(1))
  ultimately show ?thesis by simp
qed


lemma is_hex_ascii: "is_hex c \<Longrightarrow> c < 128"
  by (auto simp: is_hex_def)

lemma is_hex_ascii_lower: "is_hex c \<Longrightarrow> is_hex (ascii_lower c)"
  by (auto simp: is_hex_def ascii_lower_def)

lemma str_lower_ascii: "is_ascii s \<Longrightarrow> str_lower U s = map ascii_lower s"
  by (simp add: str_lower_def)


lemma is_ascii_hyphenate: "list_all is_hex h \<Longrightarrow> is_ascii (hyphenate h)"
  by (auto simp: hyphenate_def slice_def slice_from_def is_ascii_set list_all_iff py_def
      dest!: in_set_takeD in_set_dropD is_hex_ascii)




text \<open>
  C7, as the code has it. Let the stripped key have exactly eleven decimal digits, let no
  earlier rule apply to it (e-mail, UUID pattern, 32 hexadecimal characters, formatted
  CPF) and let it not start with \<^verbatim>\<open>+\<close>. If the digit at index 2 is \<^verbatim>\<open>9\<close> and the first two
  digits are a number from 11 to 99, the normaliser returns \<^verbatim>\<open>+55\<close> and the digits;
  otherwise, when the key has no parenthesis either, it returns the eleven digits.
\<close>

theorem C7_eleven_digits:
  assumes "length (digits_of U (str_strip U key)) = 11"
    and "\<not> rule_email (str_strip U key)"
    and "\<not> rule_uuid (str_strip U key)"
    and "\<not> rule_hex32 (str_strip U key)"
    and "\<not> rule_cpf_formatted U (str_strip U key)"
    and "\<not> startswith (str_strip U key) (py ''+'')"
  shows "(digits_of U (str_strip U key) ! 2 = 57
          \<and> 11 \<le> int_str U (take 2 (digits_of U (str_strip U key)))
          \<and> int_str U (take 2 (digits_of U (str_strip U key))) \<le> 99
          \<longrightarrow> normalize_pix_key U key = py ''+55'' @ digits_of U (str_strip U key))
     \<and> (\<not> (digits_of U (str_strip U key) ! 2 = 57
             \<and> 11 \<le> int_str U (take 2 (digits_of U (str_strip U key)))
             \<and> int_str U (take 2 (digits_of U (str_strip U key))) \<le> 99)
          \<and> \<not> list_ex (\<lambda>c. c = 40 \<or> c = 41) (str_strip U key)
          \<longrightarrow> normalize_pix_key U key = digits_of U (str_strip U key))"
proof -
  let ?k = "str_strip U key"
  let ?d = "digits_of U ?k"
  have ne: "key \<noteq> []"
  proof
    assume "key = []"
    then have "?d = []" by (simp add: str_strip_def digits_of_def)
    with assms(1) show False by simp
  qed
  have d: "?d \<noteq> []" using assms(1) by auto
  have cnpj: "\<not> rule_cnpj_formatted U ?k" using assms(1) by (simp add: rule_cnpj_formatted_def)
  have cc: "\<not> has_country_code U ?k" using assms(1,6) by (simp add: has_country_code_def)
  have shape: "looks_like_br_phone U ?d \<longleftrightarrow>
      (?d ! 2 = 57 \<and> 11 \<le> int_str U (take 2 ?d) \<and> int_str U (take 2 ?d) \<le> 99)"
    using assms(1) by (simp add: looks_like_br_phone_def slice_def Let_def)
  have phone: "rule_phone U ?k \<longleftrightarrow>
      (list_ex (\<lambda>c. c = 40 \<or> c = 41) ?k \<or> looks_like_br_phone U ?d)"
    using cc d by (simp add: rule_phone_def)
  show ?thesis
    unfolding normalize_pix_key_rules
    using ne assms cnpj cc phone shape by simp
qed

lemma mobile_key_strip: "str_strip ucd_ascii (py ''11987654321'') = py ''11987654321''"
  and cpf_key_strip: "str_strip ucd_ascii (py ''12345678901'') = py ''12345678901''"
  by (simp_all add: str_strip_def py_def class_eval)

lemma mobile_key_digits: "digits_of ucd_ascii (py ''11987654321'') = py ''11987654321''"
  and cpf_key_digits: "digits_of ucd_ascii (py ''12345678901'') = py ''12345678901''"
  by (simp_all add: digits_of_def py_def class_eval)

lemma digit_keys_no_earlier_rule:
  "\<not> rule_email (py ''11987654321'')" "\<not> rule_uuid (py ''11987654321'')"
  "\<not> rule_hex32 (py ''11987654321'')" "\<not> rule_cpf_formatted ucd_ascii (py ''11987654321'')"
  "\<not> startswith (py ''11987654321'') (py ''+'')"
  "\<not> rule_email (py ''12345678901'')" "\<not> rule_uuid (py ''12345678901'')"
  "\<not> rule_hex32 (py ''12345678901'')" "\<not> rule_cpf_formatted ucd_ascii (py ''12345678901'')"
  "\<not> startswith (py ''12345678901'') (py ''+'')"
  by (simp_all add: rule_email_def rule_uuid_def rule_hex32_def rule_cpf_formatted_def
      uuid_pattern_def hex_pattern_def cpf_formatted_pattern_def startswith_def py_def class_eval)

theorem C7_eleven_digits_witness:
  "normalize_pix_key ucd_ascii (py ''11987654321'') = py ''+5511987654321''
   \<and> normalize_pix_key ucd_ascii (py ''12345678901'') = py ''12345678901''"
proof -
  have a: "normalize_pix_key ucd_ascii (py ''11987654321'') = py ''+5511987654321''"
    using C7_eleven_digits [of ucd_ascii "py ''11987654321''"]
    unfolding mobile_key_strip mobile_key_digits
    using digit_keys_no_earlier_rule
    by (simp add: py_def int_str_def class_eval)
  have b: "normalize_pix_key ucd_ascii (py ''12345678901'') = py ''12345678901''"
    using C7_eleven_digits [of ucd_ascii "py ''12345678901''"]
    unfolding cpf_key_strip cpf_key_digits
    using digit_keys_no_earlier_rule
    by (simp add: py_def int_str_def class_eval)
  from a b show ?thesis by (rule conjI)
qed

text \<open>
  C7 as it is stated fails: the key \<^verbatim>\<open>+11987654321\<close> has eleven digits of the mobile shape
  and is classified as a telephone, but it starts with \<^verbatim>\<open>+\<close> and so is taken to carry its
  country code: the result is \<^verbatim>\<open>+11987654321\<close>, not \<^verbatim>\<open>+5511987654321\<close>. (A formatted CPF
  with digits of the mobile shape is returned as bare digits: \<open>formatted_cpf_mobile_digits\<close>.)
\<close>

theorem C7_plus_prefix_counterexample:
  "normalize_pix_key ucd_ascii (py ''+11987654321'') = py ''+11987654321''"
  by (simp add: py_def normalize_pix_key_eval)

lemma formatted_cpf_mobile_digits:
  "normalize_pix_key ucd_ascii (py ''119.876.543-21'') = py ''11987654321''"
  by (simp add: py_def normalize_pix_key_eval)

section \<open>The text normaliser\<close>

text \<open>
  A string is tidy when it has no space at either end and no two spaces in a row:
  \<open>inword s\<close> says so of what follows a character that is no space. Joining the words of
  a split gives a tidy string, and a tidy string is the join of its own words.
\<close>

fun inword :: "str \<Rightarrow> bool" where
  "inword [] = True"
| "inword (c # cs) =
     (if c = 32 then (case cs of [] \<Rightarrow> False | d # ds \<Rightarrow> d \<noteq> 32 \<and> inword ds)
      else inword cs)"

definition tidy :: "str \<Rightarrow> bool" where
  "tidy s = (case s of [] \<Rightarrow> True | c # cs \<Rightarrow> c \<noteq> 32 \<and> inword cs)"

lemma split_from_nonempty: "cur \<noteq> [] \<Longrightarrow> split_from U cur s \<noteq> []"
  by (induction s arbitrary: cur) auto

lemma str_join_Cons: "ws \<noteq> [] \<Longrightarrow> str_join sep (w # ws) = w @ sep @ str_join sep ws"
  by (cases ws) simp_all

lemma join_split_inword:
  assumes "\<forall>c\<in>set s. isspace U c \<longleftrightarrow> c = 32" and "inword s" and "cur \<noteq> []"
  shows "str_join [32] (split_from U cur s) = cur @ s"
  using assms
proof (induction s arbitrary: cur rule: inword.induct)
  case 1
  then show ?case by simp
next
  case (2 c cs)
  show ?case
  proof (cases "c = 32")
    case True
    with "2.prems" obtain d ds where cs: "cs = d # ds" and d: "d \<noteq> 32" and ds: "inword ds"
      by (cases cs) auto
    from "2.prems"(1) cs d have sp: "isspace U c" "\<not> isspace U d"
      and rest: "\<forall>c\<in>set ds. isspace U c \<longleftrightarrow> c = 32"
      using True by auto
    have "str_join [32] (split_from U [d] ds) = [d] @ ds"
      using "2.IH"(1) [OF True cs rest ds] by simp
    moreover have "split_from U [d] ds \<noteq> []" by (rule split_from_nonempty) simp
    ultimately show ?thesis
      using sp "2.prems"(3) by (simp add: cs True str_join_Cons)
  next
    case False
    with "2.prems" have nsp: "\<not> isspace U c" and rest: "\<forall>c\<in>set cs. isspace U c \<longleftrightarrow> c = 32"
      and cs: "inword cs" by auto
    have "str_join [32] (split_from U (cur @ [c]) cs) = (cur @ [c]) @ cs"
      using "2.IH"(2) [OF False rest cs] by simp
    then show ?thesis using nsp by simp
  qed
qed

lemma join_split_tidy:
  assumes "\<forall>c\<in>set s. isspace U c \<longleftrightarrow> c = 32" and "tidy s"
  shows "str_join (py '' '') (str_split U s) = s"
proof (cases s)
  case Nil
  then show ?thesis by (simp add: str_split_def)
next
  case (Cons c cs)
  with assms have c: "c \<noteq> 32" "\<not> isspace U c" and cs: "inword cs"
    and rest: "\<forall>c\<in>set cs. isspace U c \<longleftrightarrow> c = 32"
    by (auto simp: tidy_def)
  from join_split_inword [OF rest cs, of "[c]"] c show ?thesis
    by (simp add: Cons str_split_def py_def)
qed

lemma inword_no_space: "32 \<notin> set s \<Longrightarrow> inword s"
  by (induction s) auto

lemma inword_append_space:
  "32 \<notin> set w \<Longrightarrow> inword (w @ 32 # r) \<longleftrightarrow> r \<noteq> [] \<and> tidy r"
  by (induction w) (auto simp: tidy_def split: list.splits)

lemma split_from_words:
  assumes "\<forall>c\<in>set cur. \<not> isspace U c" and "w \<in> set (split_from U cur s)"
  shows "w \<noteq> [] \<and> (\<forall>c\<in>set w. \<not> isspace U c)"
  using assms
proof (induction s arbitrary: cur)
  case Nil
  then show ?case by (auto split: if_splits)
next
  case (Cons c s)
  show ?case
  proof (cases "isspace U c")
    case True
    with Cons.prems(2) have "(cur \<noteq> [] \<and> w = cur) \<or> w \<in> set (split_from U [] s)"
      by (auto split: if_splits)
    then show ?thesis
    proof
      assume "cur \<noteq> [] \<and> w = cur"
      with Cons.prems(1) show ?thesis by simp
    next
      assume "w \<in> set (split_from U [] s)"
      with Cons.IH [of "[]"] show ?thesis by simp
    qed
  next
    case False
    with Cons.prems have "w \<in> set (split_from U (cur @ [c]) s)"
      and "\<forall>x\<in>set (cur @ [c]). \<not> isspace U x" by auto
    with Cons.IH [of "cur @ [c]"] show ?thesis by blast
  qed
qed

lemma tidy_join:
  assumes "\<forall>w\<in>set ws. w \<noteq> [] \<and> 32 \<notin> set w"
  shows "tidy (str_join [32] ws)"
  using assms
proof (induction "[32::nat]" ws rule: str_join.induct)
  case 1
  show ?case by (simp add: tidy_def)
next
  case (2 w)
  then obtain c cs where "w = c # cs" and "c \<noteq> 32" and "32 \<notin> set cs"
    by (cases w) auto
  then show ?case by (simp add: tidy_def inword_no_space)
next
  case (3 w v ws)
  then obtain c cs where w: "w = c # cs" and c: "c \<noteq> 32" and cs: "32 \<notin> set cs"
    by (cases w) auto
  from 3 have t: "tidy (str_join [32] (v # ws))" by simp
  from 3 have "v \<noteq> []" by simp
  then have ne: "str_join [32] (v # ws) \<noteq> []" by (cases ws) simp_all
  from inword_append_space [OF cs, of "str_join [32] (v # ws)"] t ne c
  show ?case by (simp add: w tidy_def)
qed

lemma tidy_collapse: "tidy (str_join (py '' '') (str_split U s))"
proof -
  have sp: "isspace U 32" by (simp add: class_eval)
  have "\<forall>w\<in>set (split_from U [] s). w \<noteq> [] \<and> 32 \<notin> set w"
  proof
    fix w assume "w \<in> set (split_from U [] s)"
    with split_from_words [of "[]" U w s] have "w \<noteq> [] \<and> (\<forall>c\<in>set w. \<not> isspace U c)"
      by simp
    with sp show "w \<noteq> [] \<and> 32 \<notin> set w" by auto
  qed
  then have "tidy (str_join [32] (split_from U [] s))" by (rule tidy_join)
  then show ?thesis by (simp add: str_split_def py_def)
qed

lemma inword_map:
  "(\<And>c. f c = 32 \<longleftrightarrow> c = 32) \<Longrightarrow> inword (map f s) = inword s"
proof (induction s rule: inword.induct)
  case 1
  show ?case by simp
next
  case (2 c cs)
  show ?case
  proof (cases "c = 32")
    case True
    with 2 show ?thesis by (cases cs) auto
  next
    case False
    with 2 show ?thesis by auto
  qed
qed

lemma tidy_map: "(\<And>c. f c = 32 \<longleftrightarrow> c = 32) \<Longrightarrow> tidy (map f s) = tidy s"
  by (cases s) (simp_all add: tidy_def inword_map)

lemma inword_take:
  "inword s \<Longrightarrow> take m s = [] \<or> last (take m s) \<noteq> 32 \<Longrightarrow> inword (take m s)"
proof (induction s arbitrary: m rule: inword.induct)
  case 1
  show ?case by simp
next
  case (2 c cs)
  show ?case
  proof (cases m)
    case 0
    then show ?thesis by simp
  next
    case (Suc m')
    show ?thesis
    proof (cases "c = 32")
      case True
      with "2.prems"(1) obtain d ds where cs: "cs = d # ds" and d: "d \<noteq> 32"
        and ds: "inword ds" by (cases cs) auto
      show ?thesis
      proof (cases m')
        case 0
        with "2.prems"(2) Suc True show ?thesis by simp
      next
        case (Suc m'')
        have "take m'' ds = [] \<or> last (take m'' ds) \<noteq> 32"
          using "2.prems"(2) \<open>m = Suc m'\<close> Suc cs by (auto split: if_splits)
        with "2.IH"(1) [OF True cs ds] have "inword (take m'' ds)" by simp
        with d show ?thesis by (simp add: \<open>m = Suc m'\<close> Suc cs True)
      qed
    next
      case False
      with "2.prems"(1) have cs: "inword cs" by simp
      have "take m' cs = [] \<or> last (take m' cs) \<noteq> 32"
        using "2.prems"(2) Suc by (auto split: if_splits)
      with "2.IH"(2) [OF False cs] have "inword (take m' cs)" by simp
      with False show ?thesis by (simp add: Suc)
    qed
  qed
qed

lemma tidy_take:
  "tidy s \<Longrightarrow> take m s = [] \<or> last (take m s) \<noteq> 32 \<Longrightarrow> tidy (take m s)"
proof (cases s)
  case Nil
  then show ?thesis by (simp add: tidy_def)
next
  case (Cons c cs)
  assume t: "tidy s" and l: "take m s = [] \<or> last (take m s) \<noteq> 32"
  show ?thesis
  proof (cases m)
    case 0
    then show ?thesis by (simp add: tidy_def)
  next
    case (Suc m')
    from t Cons have c: "c \<noteq> 32" and cs: "inword cs" by (simp_all add: tidy_def)
    have "take m' cs = [] \<or> last (take m' cs) \<noteq> 32"
      using l Suc Cons by (auto split: if_splits)
    with cs have "inword (take m' cs)" by (rule inword_take)
    with c show ?thesis by (simp add: Cons Suc tidy_def)
  qed
qed

lemma upper_alnum_space_facts:
  assumes "is_upper_alnum_space c"
  shows "c < 128" and "is_alnum_space c" and "ascii_upper c = c"
    and "isspace U c \<longleftrightarrow> c = 32" and "\<not> category_is_Mn U c"
  using assms
  by (auto simp: is_upper_alnum_space_def is_alnum_space_def is_alnum_def ascii_upper_def
      class_eval)

lemma ascii_upper_space: "ascii_upper c = 32 \<longleftrightarrow> c = 32"
  by (auto simp: ascii_upper_def)

lemma normalize_text_fixed:
  assumes chars: "\<forall>c\<in>set t. is_upper_alnum_space c" and "tidy t"
    and "0 \<le> n" and "length t \<le> nat n"
  shows "normalize_text U t n = t"
proof (cases "t = []")
  case True
  then show ?thesis by (simp add: normalize_text_def)
next
  case False
  have ascii: "is_ascii t"
    using chars by (auto simp: is_ascii_set upper_alnum_space_facts(1))
  have "filter (\<lambda>c. \<not> category_is_Mn U c) t = t"
    using chars by (auto simp: filter_id_conv upper_alnum_space_facts(5))
  then have ra: "remove_accents U t = t"
    using ascii by (simp add: remove_accents_def normalize_NFD_def)
  have fl: "filter is_alnum_space t = t"
    using chars by (auto simp: filter_id_conv upper_alnum_space_facts(2))
  have "\<forall>c\<in>set t. isspace U c \<longleftrightarrow> c = 32"
    using chars by (auto simp: upper_alnum_space_facts(4))
  then have js: "str_join (py '' '') (str_split U t) = t"
    using \<open>tidy t\<close> by (rule join_split_tidy)
  have "map ascii_upper t = t"
    using chars by (auto simp: map_idI upper_alnum_space_facts(3))
  then have up: "str_upper U t = t" using ascii by (simp add: str_upper_def)
  have "slice_to t n = t" using assms(3,4) by (simp add: slice_to_def)
  then show ?thesis
    using False by (simp add: normalize_text_def ra fl js up)
qed

lemma normalize_text_idempotent:
  assumes "0 \<le> n"
    and "normalize_text U s n = [] \<or> last (normalize_text U s n) \<noteq> 32"
  shows "normalize_text U (normalize_text U s n) n = normalize_text U s n"
proof (cases "s = []")
  case True
  then show ?thesis by (simp add: normalize_text_def)
next
  case False
  let ?j = "str_join (py '' '') (str_split U (filter is_alnum_space (remove_accents U s)))"
  have "\<forall>c\<in>set (filter is_alnum_space (remove_accents U s)). is_alnum_space c" by simp
  then have "\<forall>c\<in>set ?j. is_alnum_space c" by (rule collapsed_alnum_space)
  then have up: "str_upper U ?j = map ascii_upper ?j" by (rule str_upper_alnum_space)
  have "tidy ?j" by (rule tidy_collapse)
  then have t: "tidy (str_upper U ?j)" by (simp add: up tidy_map ascii_upper_space)
  have eq: "normalize_text U s n = take (nat n) (str_upper U ?j)"
    using False assms(1) by (simp add: normalize_text_def slice_to_def Let_def)
  have "tidy (normalize_text U s n)"
    unfolding eq using t assms(2) [unfolded eq] by (rule tidy_take)
  moreover have "length (normalize_text U s n) \<le> nat n" by (simp add: eq)
  ultimately show ?thesis
    using normalize_text_chars [of U s n] assms(1) by (intro normalize_text_fixed)
qed

lemma text_truncated_after_space:
  "normalize_text ucd_ascii (py ''AB CD'') 3 = py ''AB ''"
  "normalize_text ucd_ascii (py ''AB '') 3 = py ''AB''"
  by (simp_all add: py_def normalize_text_eval)

section \<open>Normalising twice\<close>

text \<open>
  What the key normaliser returns for the strings it produces: digit strings, digit
  strings after \<^verbatim>\<open>+\<close>, lower-case e-mail keys and UUIDs. The normaliser reads its argument
  only through \<^verbatim>\<open>strip\<close>.
\<close>

lemma list_all_take_drop:
  "list_all p xs \<Longrightarrow> list_all p (take n xs)"
  "list_all p xs \<Longrightarrow> list_all p (drop n xs)"
  by (auto simp: list_all_iff dest: in_set_takeD in_set_dropD)

lemma decimal_facts:
  assumes "isdecimal U c"
  shows "\<not> isspace U c" and "c \<noteq> 64" and "c \<noteq> 45" and "c \<noteq> 46" and "c \<noteq> 43"
    and "c \<noteq> 40" and "c \<noteq> 41" and "c \<noteq> 10"
  using assms by (auto simp: class_eval split: uclass.splits if_splits)

lemma no_space_stripped: "\<forall>c\<in>set s. \<not> isspace U c \<Longrightarrow> stripped U s"
  by (cases s) (auto simp: stripped_def)

lemma rule_uuid_nth: "rule_uuid k \<Longrightarrow> 8 < length k \<and> k ! 8 = 45"
  unfolding rule_uuid_def uuid_pattern_def by (rule re_match_Class_Lit)

lemma rule_cpf_nth: "rule_cpf_formatted U k \<Longrightarrow> 3 < length k \<and> k ! 3 = 46"
  unfolding rule_cpf_formatted_def cpf_formatted_pattern_def
  using re_match_Class_Lit by blast

lemma normalize_pix_key_empty: "normalize_pix_key U [] = []"
  by (simp add: normalize_pix_key_def)

lemma normalize_pix_key_strip:
  "normalize_pix_key U key = normalize_pix_key U (str_strip U key)"
proof (cases "str_strip U key = []")
  case True
  have "\<not> rule_uuid []" "\<not> rule_hex32 []" "\<not> rule_email []"
    "\<not> rule_cpf_formatted U []" "\<not> rule_cnpj_formatted U []" "\<not> rule_phone U []"
    "digits_of U [] = []"
    by (simp_all add: rule_uuid_def uuid_pattern_def rule_hex32_def rule_email_def
        rule_cpf_formatted_def rule_cnpj_formatted_def rule_phone_def digits_of_def)
  then show ?thesis
    unfolding normalize_pix_key_rules [of U key] True
    by (simp add: normalize_pix_key_empty)
next
  case False
  then have ne: "key \<noteq> []" by (rule str_strip_nonempty)
  have s: "str_strip U (str_strip U key) = str_strip U key"
    by (rule str_strip_stripped) (rule stripped_str_strip)
  show ?thesis
    unfolding normalize_pix_key_rules [of U key] normalize_pix_key_rules [of U "str_strip U key"] s
    using ne False by simp
qed

lemma digit_string:
  assumes "list_all (isdecimal U) d"
  shows "stripped U d" and "\<not> rule_email d" and "\<not> rule_uuid d" and "digits_of U d = d"
    and "\<not> rule_cpf_formatted U d" and "\<not> startswith d (py ''+'')"
    and "\<not> list_ex (\<lambda>c. c = 40 \<or> c = 41) d"
    and "length d < 32 \<Longrightarrow> \<not> rule_hex32 d"
proof -
  from assms have all: "\<forall>c\<in>set d. isdecimal U c" by (simp add: list_all_iff)
  then show "stripped U d" by (intro no_space_stripped) (auto dest: decimal_facts(1))
  show "\<not> rule_email d" using all decimal_facts(2) by (auto simp: rule_email_def)
  show "\<not> rule_uuid d"
  proof
    assume "rule_uuid d"
    then have "8 < length d \<and> d ! 8 = 45" by (rule rule_uuid_nth)
    with all have "isdecimal U 45" by (metis nth_mem)
    then show False using decimal_facts(3) by blast
  qed
  show "digits_of U d = d" using all by (simp add: digits_of_def)
  show "\<not> rule_cpf_formatted U d"
  proof
    assume "rule_cpf_formatted U d"
    then have "3 < length d \<and> d ! 3 = 46" by (rule rule_cpf_nth)
    with all have "isdecimal U 46" by (metis nth_mem)
    then show False using decimal_facts(4) by blast
  qed
  show "\<not> startswith d (py ''+'')"
  proof
    assume "startswith d (py ''+'')"
    then have "d \<noteq> [] \<and> hd d = 43" by (cases d) (auto simp: startswith_def py_def)
    with all have "isdecimal U 43" by (metis hd_in_set)
    then show False using decimal_facts(5) by blast
  qed
  show "\<not> list_ex (\<lambda>c. c = 40 \<or> c = 41) d"
    using all decimal_facts(6,7) [of U] by (fastforce simp: list_ex_iff)
  show "\<not> rule_hex32 d" if "length d < 32"
  proof
    assume "rule_hex32 d"
    then have "length (filter is_hex d) = 32" by (simp add: rule_hex32_def)
    moreover have "length (filter is_hex d) \<le> length d" by simp
    ultimately show False using that by simp
  qed
qed

lemma cnpj_bare:
  assumes "list_all (isdecimal U) d" and "length d = 14"
  shows "re_match (cnpj_pattern U) d"
  using assms by (simp add: cnpj_pattern_def list_all_take_drop)

lemma normalize_digits_11:
  assumes "list_all (isdecimal U) d" and "length d = 11" and "\<not> looks_like_br_phone U d"
  shows "normalize_pix_key U d = d"
proof -
  note ds = digit_string [OF assms(1)]
  have ne: "d \<noteq> []" using assms(2) by auto
  have s: "str_strip U d = d" using ds(1) by (rule str_strip_stripped)
  have "\<not> rule_hex32 d" using assms(2) by (intro ds(8)) simp
  moreover have "\<not> rule_cnpj_formatted U d"
    using assms(2) by (simp add: rule_cnpj_formatted_def ds(4))
  moreover have "\<not> rule_phone U d"
    using assms(2,3) ds(6,7) by (simp add: rule_phone_def has_country_code_def ds(4))
  ultimately show ?thesis
    unfolding normalize_pix_key_rules s using ne ds(2,3,5) assms(2) by (simp add: ds(4))
qed

lemma normalize_digits_14:
  assumes "list_all (isdecimal U) d" and "length d = 14"
  shows "normalize_pix_key U d = d"
proof -
  note ds = digit_string [OF assms(1)]
  have ne: "d \<noteq> []" using assms(2) by auto
  have s: "str_strip U d = d" using ds(1) by (rule str_strip_stripped)
  have "\<not> rule_hex32 d" using assms(2) by (intro ds(8)) simp
  moreover have "rule_cnpj_formatted U d"
    using assms cnpj_bare by (simp add: rule_cnpj_formatted_def ds(4))
  ultimately show ?thesis
    unfolding normalize_pix_key_rules s using ne ds(2,3,5) by (simp add: ds(4))
qed

lemma normalize_plus_digits:
  assumes "list_all (isdecimal U) d" and "d \<noteq> []"
  shows "normalize_pix_key U (43 # d) = 43 # d"
proof -
  let ?o = "43 # d"
  from assms(1) have all: "\<forall>c\<in>set d. isdecimal U c" by (simp add: list_all_iff)
  have plus: "\<not> isdecimal U 43" "\<not> isspace U 43" "\<not> is_hex 43" by (simp_all add: class_eval)
  have "stripped U ?o"
    using all plus(2) by (intro no_space_stripped) (auto dest: decimal_facts(1))
  then have s: "str_strip U ?o = ?o" by (rule str_strip_stripped)
  have e: "\<not> rule_email ?o" using all decimal_facts(2) by (auto simp: rule_email_def)
  have u: "\<not> rule_uuid ?o"
    unfolding rule_uuid_def uuid_pattern_def
    using re_match_Class_hd [of is_hex 8 _ ?o] plus(3) by auto
  have h: "\<not> rule_hex32 ?o"
    unfolding rule_hex32_def hex_pattern_def
    using re_match_Plus_hd [of is_hex "[]" ?o] plus(3) by auto
  have c: "\<not> rule_cpf_formatted U ?o"
    unfolding rule_cpf_formatted_def cpf_formatted_pattern_def
    using re_match_Class_hd [of "isdecimal U" 3 _ ?o] plus(1) by auto
  have j: "\<not> rule_cnpj_formatted U ?o"
    unfolding rule_cnpj_formatted_def cnpj_pattern_def
    using re_match_Class_hd [of "isdecimal U" 2 _ ?o] plus(1) by auto
  have d: "digits_of U ?o = d" using all plus(1) by (simp add: digits_of_def)
  have cc: "has_country_code U ?o" by (simp add: has_country_code_def startswith_def py_def)
  then have p: "rule_phone U ?o" using assms(2) by (simp add: rule_phone_def d)
  show ?thesis
    unfolding normalize_pix_key_rules s using e u h c j p cc by (simp add: d py_def)
qed

lemma ascii_lower_facts:
  "ascii_lower (ascii_lower c) = ascii_lower c"
  "ascii_lower c = 64 \<longleftrightarrow> c = 64"
  "c < 128 \<Longrightarrow> ascii_lower c < 128"
  "c < 128 \<Longrightarrow> isspace U (ascii_lower c) \<longleftrightarrow> isspace U c"
  by (auto simp: ascii_lower_def class_eval)

lemma stripped_map_ascii_lower:
  assumes "stripped U k" and "is_ascii k"
  shows "stripped U (map ascii_lower k)"
proof (cases "k = []")
  case True
  then show ?thesis by (simp add: stripped_def)
next
  case False
  then have "hd k \<in> set k" and "last k \<in> set k" by simp_all
  with assms(2) have "hd k < 128" and "last k < 128" by (simp_all add: is_ascii_set)
  with assms(1) False show ?thesis
    by (simp add: stripped_def hd_map last_map ascii_lower_facts(4))
qed

lemma is_ascii_map_ascii_lower: "is_ascii k \<Longrightarrow> is_ascii (map ascii_lower k)"
  by (auto simp: is_ascii_set ascii_lower_facts(3))

text \<open>
  What the e-mail rule needs of \<^verbatim>\<open>str.lower\<close> on a key: the lowered key still has its
  \<^verbatim>\<open>@\<close>, has no white space at either end, and lowering it once more changes nothing. On
  an ASCII key this follows from what \<^verbatim>\<open>str.lower\<close> is on ASCII; beyond ASCII it is a
  property of the tables of the interpreter.
\<close>

definition lower_stable :: "interpreter \<Rightarrow> str \<Rightarrow> bool" where
  "lower_stable U k =
     (let out = str_lower U k
      in rule_email out \<and> stripped U out \<and> str_lower U out = out)"

lemma lower_stable_ascii:
  assumes "stripped U k" and "rule_email k" and "is_ascii k"
  shows "lower_stable U k"
proof -
  let ?o = "map ascii_lower k"
  have o: "str_lower U k = ?o" using assms(3) by (rule str_lower_ascii)
  have s: "stripped U ?o" using assms(1,3) by (rule stripped_map_ascii_lower)
  from assms(2) have "ascii_lower 64 \<in> set ?o" by (auto simp: rule_email_def)
  then have e: "rule_email ?o" by (simp add: rule_email_def ascii_lower_def)
  have "str_lower U ?o = map ascii_lower ?o"
    using assms(3) by (intro str_lower_ascii is_ascii_map_ascii_lower)
  then have "str_lower U ?o = ?o" by (simp add: ascii_lower_facts(1))
  with s e show ?thesis unfolding lower_stable_def Let_def o by simp
qed

text \<open>
  Every stripped e-mail key is covered on an interpreter whose \<^verbatim>\<open>str.lower\<close> is idempotent,
  keeps \<^verbatim>\<open>@\<close> and puts no white space at an end of a string that had none.
\<close>

lemma lower_stable_interpreter:
  assumes "\<forall>s. str_lower U (str_lower U s) = str_lower U s"
    and "\<forall>s. rule_email s \<longrightarrow> rule_email (str_lower U s)"
    and "\<forall>s. stripped U s \<longrightarrow> stripped U (str_lower U s)"
    and "stripped U k" and "rule_email k"
  shows "lower_stable U k"
  using assms by (simp add: lower_stable_def Let_def)

lemma normalize_email_stable:
  assumes "lower_stable U k"
  shows "normalize_pix_key U (str_lower U k) = str_lower U k"
proof -
  let ?o = "str_lower U k"
  from assms have e: "rule_email ?o" and st: "stripped U ?o" and l: "str_lower U ?o = ?o"
    by (simp_all add: lower_stable_def Let_def)
  from st have s: "str_strip U ?o = ?o" by (rule str_strip_stripped)
  from e have ne: "?o \<noteq> []" by (auto simp: rule_email_def)
  show ?thesis
    unfolding normalize_pix_key_rules s using ne e l by simp
qed

lemma normalize_uuid_shape:
  assumes "re_match uuid_pattern out" and "stripped U out"
    and "\<forall>c\<in>set out. c < 128 \<and> c \<noteq> 64 \<and> ascii_lower c = c"
  shows "normalize_pix_key U out = out"
proof -
  have ne: "out \<noteq> []"
    using re_match_Class_hd [of is_hex 8 _ out] assms(1) by (auto simp: uuid_pattern_def)
  have s: "str_strip U out = out" using assms(2) by (rule str_strip_stripped)
  have e: "\<not> rule_email out" using assms(3) by (auto simp: rule_email_def)
  have u: "rule_uuid out" using assms(1) by (simp add: rule_uuid_def)
  have "is_ascii out" using assms(3) by (simp add: is_ascii_set)
  then have "str_lower U out = map ascii_lower out" by (rule str_lower_ascii)
  also have "\<dots> = out" using assms(3) by (simp add: map_idI)
  finally show ?thesis
    unfolding normalize_pix_key_rules s using ne e u by simp
qed

lemma uuid_pattern_stable: "\<forall>i\<in>set uuid_pattern. re_item_stable ascii_lower i"
  by (simp add: uuid_pattern_def is_hex_ascii_lower) (simp add: ascii_lower_def)

lemma uuid_pattern_chars:
  assumes "re_match uuid_pattern k" and "c \<in> set k"
  shows "c = 10 \<or> c = 45 \<or> is_hex c"
  using re_match_chars [OF assms] by (auto simp: uuid_pattern_def)

lemma hex_or_hyphen_lower:
  assumes "c = 10 \<or> c = 45 \<or> is_hex c"
  shows "c < 128" and "ascii_lower c < 128" and "ascii_lower c \<noteq> 64"
    and "ascii_lower (ascii_lower c) = ascii_lower c"
  using assms by (auto simp: is_hex_def ascii_lower_def)

lemma lowered_chars:
  assumes "\<forall>c\<in>set k. c = 10 \<or> c = 45 \<or> is_hex c"
  shows "\<forall>c\<in>set (map ascii_lower k). c < 128 \<and> c \<noteq> 64 \<and> ascii_lower c = c"
proof
  fix c assume "c \<in> set (map ascii_lower k)"
  then obtain x where x: "x \<in> set k" and c: "c = ascii_lower x" by auto
  from assms x have "x = 10 \<or> x = 45 \<or> is_hex x" by blast
  from hex_or_hyphen_lower(2,3,4) [OF this] show "c < 128 \<and> c \<noteq> 64 \<and> ascii_lower c = c"
    by (simp add: c)
qed

lemma normalize_uuid:
  assumes "stripped U k" and "rule_uuid k"
  shows "normalize_pix_key U (str_lower U k) = str_lower U k"
proof -
  from assms(2) have m: "re_match uuid_pattern k" by (simp add: rule_uuid_def)
  have chars: "\<forall>c\<in>set k. c = 10 \<or> c = 45 \<or> is_hex c"
    using uuid_pattern_chars [OF m] by blast
  then have "\<forall>c\<in>set k. c < 128" using hex_or_hyphen_lower(1) by blast
  then have ascii: "is_ascii k" by (simp add: is_ascii_set)
  then have o: "str_lower U k = map ascii_lower k" by (rule str_lower_ascii)
  have "re_match uuid_pattern (map ascii_lower k)"
    using m uuid_pattern_stable by (rule re_match_map) (simp add: ascii_lower_def)
  moreover have "stripped U (map ascii_lower k)"
    using assms(1) ascii by (rule stripped_map_ascii_lower)
  moreover have "\<forall>c\<in>set (map ascii_lower k). c < 128 \<and> c \<noteq> 64 \<and> ascii_lower c = c"
    using chars by (rule lowered_chars)
  ultimately show ?thesis unfolding o by (rule normalize_uuid_shape)
qed

lemma hyphenate_uuid:
  assumes "length h = 32" and "list_all is_hex h"
  shows "re_match uuid_pattern (hyphenate h)"
  using assms
  by (simp add: uuid_pattern_def hyphenate_def slice_def slice_from_def py_def
      list_all_take_drop)

lemma normalize_hex32:
  assumes "rule_hex32 k"
  shows "normalize_pix_key U (str_lower U (hyphenate (filter is_hex k)))
           = str_lower U (hyphenate (filter is_hex k))"
proof -
  let ?h = "filter is_hex k"
  have len: "length ?h = 32" using assms by (simp add: rule_hex32_def)
  have hex: "list_all is_hex ?h" by (simp add: list_all_iff)
  have m: "re_match uuid_pattern (hyphenate ?h)" using len hex by (rule hyphenate_uuid)
  have chars: "\<forall>c\<in>set (hyphenate ?h). c = 10 \<or> c = 45 \<or> is_hex c"
    using uuid_pattern_chars [OF m] by blast
  have nl: "\<forall>c\<in>set (hyphenate ?h). c \<noteq> 10"
    by (auto simp: hyphenate_def slice_def slice_from_def py_def is_hex_def
        dest!: in_set_takeD in_set_dropD)
  have ascii: "is_ascii (hyphenate ?h)" using hex by (rule is_ascii_hyphenate)
  then have o: "str_lower U (hyphenate ?h) = map ascii_lower (hyphenate ?h)"
    by (rule str_lower_ascii)
  have "re_match uuid_pattern (map ascii_lower (hyphenate ?h))"
    using m uuid_pattern_stable by (rule re_match_map) (simp add: ascii_lower_def)
  moreover have "\<forall>c\<in>set (map ascii_lower (hyphenate ?h)). \<not> isspace U c"
    using chars nl by (auto simp: class_eval is_hex_def ascii_lower_def)
  then have "stripped U (map ascii_lower (hyphenate ?h))" by (rule no_space_stripped)
  moreover have "\<forall>c\<in>set (map ascii_lower (hyphenate ?h)).
      c < 128 \<and> c \<noteq> 64 \<and> ascii_lower c = c"
    using chars by (rule lowered_chars)
  ultimately show ?thesis unfolding o by (rule normalize_uuid_shape)
qed

lemma normalize_pix_key_idempotent:
  assumes email: "rule_email (str_strip U key) \<longrightarrow> lower_stable U (str_strip U key)"
    and cpf: "\<not> (rule_cpf_formatted U (str_strip U key)
               \<and> looks_like_br_phone U (digits_of U (str_strip U key)))"
  shows "normalize_pix_key U (normalize_pix_key U key) = normalize_pix_key U key"
proof -
  let ?k = "str_strip U key"
  let ?d = "digits_of U ?k"
  have st: "stripped U ?k" by (rule stripped_str_strip)
  then have s: "str_strip U ?k = ?k" by (rule str_strip_stripped)
  have dec: "list_all (isdecimal U) ?d" by (simp add: digits_of_def list_all_iff)
  have "normalize_pix_key U (normalize_pix_key U ?k) = normalize_pix_key U ?k"
  proof (cases "?k = []")
    case True
    then show ?thesis by (simp add: normalize_pix_key_empty)
  next
    case ne: False
    note rules = normalize_pix_key_rules [of U ?k, unfolded s]
    consider (email) "rule_email ?k"
      | (uuid) "\<not> rule_email ?k" "rule_uuid ?k"
      | (hex32) "\<not> rule_email ?k" "\<not> rule_uuid ?k" "rule_hex32 ?k"
      | (digits) "\<not> rule_email ?k" "\<not> rule_uuid ?k" "\<not> rule_hex32 ?k"
      by blast
    then show ?thesis
    proof cases
      case email
      with assms(1) have "lower_stable U ?k" by simp
      then have "normalize_pix_key U (str_lower U ?k) = str_lower U ?k"
        by (rule normalize_email_stable)
      then show ?thesis using rules ne email by simp
    next
      case uuid
      from st uuid(2) have "normalize_pix_key U (str_lower U ?k) = str_lower U ?k"
        by (rule normalize_uuid)
      then show ?thesis using rules ne uuid by simp
    next
      case hex32
      from normalize_hex32 [OF hex32(3), of U] show ?thesis using rules ne hex32 by simp
    next
      case digits
      consider (cpf) "rule_cpf_formatted U ?k"
        | (cnpj) "\<not> rule_cpf_formatted U ?k" "rule_cnpj_formatted U ?k"
        | (phone) "\<not> rule_cpf_formatted U ?k" "\<not> rule_cnpj_formatted U ?k" "rule_phone U ?k"
        | (rest) "\<not> rule_cpf_formatted U ?k" "\<not> rule_cnpj_formatted U ?k"
            "\<not> rule_phone U ?k"
        by blast
      then show ?thesis
      proof cases
        case cpf
        then have len: "length ?d = 11" by (simp add: rule_cpf_formatted_def)
        from cpf assms(2) have "\<not> looks_like_br_phone U ?d" by simp
        with dec len have "normalize_pix_key U ?d = ?d" by (rule normalize_digits_11)
        then show ?thesis using rules ne digits cpf by simp
      next
        case cnpj
        then have len: "length ?d = 14" by (simp add: rule_cnpj_formatted_def)
        with dec have "normalize_pix_key U ?d = ?d" by (rule normalize_digits_14)
        then show ?thesis using rules ne digits cnpj by simp
      next
        case phone
        then have dne: "?d \<noteq> []" by (simp add: rule_phone_def)
        have five: "isdecimal U 53" by (simp add: class_eval)
        have "normalize_pix_key U (43 # ?d) = 43 # ?d"
          using dec dne by (rule normalize_plus_digits)
        moreover have "normalize_pix_key U (43 # 53 # 53 # ?d) = 43 # 53 # 53 # ?d"
          using dec five by (intro normalize_plus_digits) simp_all
        ultimately show ?thesis using rules ne digits phone by (simp add: py_def)
      next
        case rest
        show ?thesis
        proof (cases "length ?d = 14")
          case True
          with dec have "normalize_pix_key U ?d = ?d" by (rule normalize_digits_14)
          then show ?thesis using rules ne digits rest True by simp
        next
          case n14: False
          show ?thesis
          proof (cases "length ?d = 11")
            case True
            then have "?d \<noteq> []" by auto
            with rest(3) have "\<not> looks_like_br_phone U ?d" by (simp add: rule_phone_def)
            with dec True have "normalize_pix_key U ?d = ?d" by (rule normalize_digits_11)
            then show ?thesis using rules ne digits rest n14 True by simp
          next
            case False
            with rules ne digits rest n14 have "normalize_pix_key U ?k = ?k" by simp
            then show ?thesis by simp
          qed
        qed
      qed
    qed
  qed
  then show ?thesis using normalize_pix_key_strip [of U key] by simp
qed

lemma normalize_cpf_mobile_not_idempotent:
  assumes "rule_cpf_formatted U (str_strip U key)"
    and "looks_like_br_phone U (digits_of U (str_strip U key))"
  shows "normalize_pix_key U (normalize_pix_key U key) = py ''+55'' @ normalize_pix_key U key"
proof -
  let ?k = "str_strip U key"
  let ?d = "digits_of U ?k"
  have len: "length ?d = 11" using assms(1) by (simp add: rule_cpf_formatted_def)
  have dec: "list_all (isdecimal U) ?d" by (simp add: digits_of_def list_all_iff)
  note ds = digit_string [OF dec]
  from assms(1) have m: "re_match (cpf_formatted_pattern U) ?k"
    by (simp add: rule_cpf_formatted_def)
  have chars: "\<forall>c\<in>set ?k. c = 10 \<or> c = 46 \<or> c = 45 \<or> isdecimal U c"
    using re_match_chars [OF m] by (auto simp: cpf_formatted_pattern_def)
  have ne: "?k \<noteq> []" using len by (auto simp: digits_of_def)
  then have key: "key \<noteq> []" by (rule str_strip_nonempty)
  have e: "\<not> rule_email ?k"
    using chars decimal_facts(2) [of U 64] by (auto simp: rule_email_def)
  have u: "\<not> rule_uuid ?k"
  proof
    assume "rule_uuid ?k"
    then have a: "8 \<le> length ?k" "list_all is_hex (take 8 ?k)"
      by (simp_all add: rule_uuid_def uuid_pattern_def)
    from rule_cpf_nth [OF assms(1)] have b: "?k ! 3 = 46" by simp
    have "take 8 ?k ! 3 \<in> set (take 8 ?k)" using a(1) by (intro nth_mem) simp
    then have "46 \<in> set (take 8 ?k)" using b by simp
    with a(2) have "is_hex 46" by (simp add: list_all_iff)
    then show False by (simp add: is_hex_def)
  qed
  have h: "\<not> rule_hex32 ?k"
  proof
    assume "rule_hex32 ?k"
    then have "re_match hex_pattern ?k" by (simp add: rule_hex32_def)
    from re_match_chars [OF this] have "\<forall>c\<in>set ?k. c = 10 \<or> is_hex c"
      by (auto simp: hex_pattern_def)
    moreover from rule_cpf_nth [OF assms(1)] have "46 \<in> set ?k" by (metis nth_mem)
    ultimately have "is_hex 46" by auto
    then show False by (simp add: is_hex_def)
  qed
  have first: "normalize_pix_key U key = ?d"
    unfolding normalize_pix_key_rules using key e u h assms(1) by simp
  have s: "str_strip U ?d = ?d" using ds(1) by (rule str_strip_stripped)
  have dne: "?d \<noteq> []" using len by auto
  have "\<not> rule_hex32 ?d" using len by (intro ds(8)) simp
  moreover have "\<not> rule_cnpj_formatted U ?d"
    using len by (simp add: rule_cnpj_formatted_def ds(4))
  moreover have "rule_phone U ?d"
    using assms(2) dne by (simp add: rule_phone_def ds(4))
  moreover have "\<not> has_country_code U ?d"
    using len ds(6) by (simp add: has_country_code_def ds(4))
  ultimately have "normalize_pix_key U ?d = py ''+55'' @ ?d"
    unfolding normalize_pix_key_rules s using dne ds(2,3,5) by (simp add: ds(4))
  then show ?thesis by (simp add: first)
qed

lemma mobile_key_normalized:
  "normalize_pix_key ucd_ascii (py ''11987654321'') = py ''+5511987654321''"
  by (simp add: py_def normalize_pix_key_eval)

lemma text_not_truncated: "normalize_text ucd_ascii (py ''AB CD'') 25 = py ''AB CD''"
  by (simp add: py_def normalize_text_eval)

lemma email_key_strip:
  "str_strip ucd_ascii (py ''Test@Example.COM'') = py ''Test@Example.COM''"
  by (simp add: py_def str_strip_def class_eval)

lemma email_key_normalized:
  "normalize_pix_key ucd_ascii (py ''Test@Example.COM'') = py ''test@example.com''"
  by (simp add: py_def normalize_pix_key_eval)

text \<open>
  C9, as the code has it. The key normaliser returns its own result unchanged for every
  key, unless the key is a formatted CPF whose digits look like a telephone number (these
  are returned as bare digits, which a second pass turns into a telephone key:
  \<open>normalize_cpf_mobile_not_idempotent\<close>); for a key with an \<^verbatim>\<open>@\<close> this assumes of
  \<^verbatim>\<open>str.lower\<close> that the lowered key keeps the \<^verbatim>\<open>@\<close>, has no white space at either end and
  is not changed by \<^verbatim>\<open>str.lower\<close> (\<open>lower_stable\<close>, which holds of every ASCII key:
  \<open>lower_stable_ascii\<close>). The text normaliser returns its own result unchanged for every
  string and every maximal length \<open>n \<ge> 0\<close> for which the result does not end in a space.
\<close>

theorem C9_idempotent_where_stable:
  "((rule_email (str_strip U key) \<longrightarrow> lower_stable U (str_strip U key))
     \<and> \<not> (rule_cpf_formatted U (str_strip U key)
            \<and> looks_like_br_phone U (digits_of U (str_strip U key)))
     \<longrightarrow> normalize_pix_key U (normalize_pix_key U key) = normalize_pix_key U key)
   \<and> (0 \<le> n \<and> (normalize_text U s n = [] \<or> last (normalize_text U s n) \<noteq> 32)
     \<longrightarrow> normalize_text U (normalize_text U s n) n = normalize_text U s n)"
  using normalize_pix_key_idempotent [of U key] normalize_text_idempotent [of n U s]
  by blast

theorem C9_idempotent_where_stable_witness:
  "rule_email (str_strip ucd_ascii (py ''Test@Example.COM''))
   \<and> lower_stable ucd_ascii (str_strip ucd_ascii (py ''Test@Example.COM''))
   \<and> \<not> rule_cpf_formatted ucd_ascii (str_strip ucd_ascii (py ''Test@Example.COM''))
   \<and> normalize_pix_key ucd_ascii (py ''Test@Example.COM'') = py ''test@example.com''
   \<and> normalize_pix_key ucd_ascii (normalize_pix_key ucd_ascii (py ''Test@Example.COM''))
       = normalize_pix_key ucd_ascii (py ''Test@Example.COM'')
   \<and> normalize_text ucd_ascii (py ''AB CD'') 25 = py ''AB CD''
   \<and> normalize_text ucd_ascii (normalize_text ucd_ascii (py ''AB CD'') 25) 25
       = normalize_text ucd_ascii (py ''AB CD'') 25"
proof -
  have e: "rule_email (str_strip ucd_ascii (py ''Test@Example.COM''))"
    unfolding email_key_strip by (simp add: rule_email_def py_def)
  have st: "lower_stable ucd_ascii (str_strip ucd_ascii (py ''Test@Example.COM''))"
    unfolding email_key_strip
    by (simp add: lower_stable_def rule_email_def stripped_def py_def str_lower_def
        ascii_lower_def class_eval)
  have c: "\<not> rule_cpf_formatted ucd_ascii (str_strip ucd_ascii (py ''Test@Example.COM''))"
    unfolding email_key_strip
    by (simp add: rule_cpf_formatted_def cpf_formatted_pattern_def py_def class_eval)
  have l: "last (normalize_text ucd_ascii (py ''AB CD'') 25) \<noteq> 32"
    unfolding text_not_truncated by (simp add: py_def)
  note c9 = C9_idempotent_where_stable [of ucd_ascii "py ''Test@Example.COM''" 25 "py ''AB CD''"]
  from c9 st c
  have "normalize_pix_key ucd_ascii (normalize_pix_key ucd_ascii (py ''Test@Example.COM''))
       = normalize_pix_key ucd_ascii (py ''Test@Example.COM'')" by blast
  moreover from c9 l
  have "normalize_text ucd_ascii (normalize_text ucd_ascii (py ''AB CD'') 25) 25
       = normalize_text ucd_ascii (py ''AB CD'') 25" by simp
  ultimately show ?thesis using e st c email_key_normalized text_not_truncated by simp
qed

text \<open>
  C9 as it is stated fails for both normalisers: \<^verbatim>\<open>119.876.543-21\<close> becomes \<^verbatim>\<open>11987654321\<close>
  and then \<^verbatim>\<open>+5511987654321\<close>; \<^verbatim>\<open>AB CD\<close> cut at three characters becomes \<^verbatim>\<open>AB\<close> and a
  space, and then \<^verbatim>\<open>AB\<close>.
\<close>

theorem C9_not_idempotent_counterexample:
  "normalize_pix_key ucd_ascii (py ''119.876.543-21'') = py ''11987654321''
   \<and> normalize_pix_key ucd_ascii (py ''11987654321'') = py ''+5511987654321''
   \<and> normalize_pix_key ucd_ascii (normalize_pix_key ucd_ascii (py ''119.876.543-21''))
       \<noteq> normalize_pix_key ucd_ascii (py ''119.876.543-21'')
   \<and> normalize_text ucd_ascii (py ''AB CD'') 3 = py ''AB ''
   \<and> normalize_text ucd_ascii (py ''AB '') 3 = py ''AB''
   \<and> normalize_text ucd_ascii (normalize_text ucd_ascii (py ''AB CD'') 3) 3
       \<noteq> normalize_text ucd_ascii (py ''AB CD'') 3"
  using formatted_cpf_mobile_digits mobile_key_normalized text_truncated_after_space
  by (simp add: py_def)

end
